theory Spec2Isabelle
  imports Main
begin

section \<open>The super tiny compiler: a shallow embedding of \<open>super-tiny-compiler.ts\<close>\<close>

text \<open>
  The program translates Lisp-style calls such as \<open>(add 2 (subtract 4 2))\<close> into C-style
  calls \<open>add(2, subtract(4, 2));\<close> in four stages: \<open>tokenizer\<close>, \<open>parser\<close>,
  \<open>transformer\<close> (built on the generic \<open>traverser\<close>) and \<open>codeGenerator\<close>.

  Conventions of the embedding.
  \<^item> A JavaScript string is a \<open>string\<close>; the model covers code units below 256.
  \<^item> \<open>xs[i]\<close> out of range is \<open>undefined\<close> in JavaScript: \<open>elem_at\<close> returns \<open>None\<close>.
  \<^item> A \<open>throw\<close> is a value \<open>Inl e\<close> of a sum type. \<open>TypeError m\<close> is an exception the
    program throws itself, with its message; \<open>EngineTypeError\<close> is the \<open>TypeError\<close> the
    JavaScript engine raises when a property of \<open>undefined\<close> or \<open>null\<close> is read (it carries
    a description of the access); \<open>Error m\<close> is the \<open>Error\<close> of \<open>ASTNode.generateJsCode\<close>.
  \<^item> A loop that may run forever is a \<^theory_text>\<open>partial_function\<close> in the option monad:
    the value \<open>None\<close> means that the loop does not return. Strings are unbounded in the
    model; an engine ends such a loop only when the string it builds exceeds a limit of
    the engine.
  \<^item> The source file holds the program twice, the second time without its comments; the
    two copies are the same program, and the line numbers below are those of the first.
\<close>

subsection \<open>Tokens\<close>

datatype TokenType = TokenType_paren | TokenType_number | TokenType_string | TokenType_name

datatype Token = Token (token_type: TokenType) (token_value: string)

datatype error = TypeError string | EngineTypeError string | Error string

text \<open>The numeric value of an enum member, printed: \<open>token.type.toString()\<close>.\<close>

fun TokenType_toString :: "TokenType \<Rightarrow> string" where
  "TokenType_toString TokenType_paren = ''0''"
| "TokenType_toString TokenType_number = ''1''"
| "TokenType_toString TokenType_string = ''2''"
| "TokenType_toString TokenType_name = ''3''"

definition elem_at :: "'a list \<Rightarrow> nat \<Rightarrow> 'a option" where
  "elem_at xs i = (if i < length xs then Some (xs ! i) else None)"

subsection \<open>The tokenizer\<close>

text \<open>
  \<open>input[current]\<close> is a character or \<open>undefined\<close>. String concatenation and
  \<open>RegExp.test\<close> first convert their argument to a string, and \<open>undefined\<close> becomes the
  nine characters \<open>undefined\<close>. A regular expression that is a single character class
  matches a string when one of its characters is in the class.
\<close>

fun to_string :: "char option \<Rightarrow> string" where
  "to_string None = ''undefined''"
| "to_string (Some c) = [c]"

definition re_test :: "(char \<Rightarrow> bool) \<Rightarrow> char option \<Rightarrow> bool" where
  "re_test cls v = list_ex cls (to_string v)"

text \<open>\<open>/\s/\<close> below code unit 256, \<open>/[0-9]/\<close> and \<open>/[a-z]/i\<close>.\<close>

definition WHITESPACE :: "char \<Rightarrow> bool" where
  "WHITESPACE c = (c \<in> set [CHR 0x09, CHR 0x0A, CHR 0x0B, CHR 0x0C, CHR 0x0D, CHR 0x20, CHR 0xA0])"

definition NUMBERS :: "char \<Rightarrow> bool" where
  "NUMBERS c = (c \<in> set ''0123456789'')"

definition LETTERS :: "char \<Rightarrow> bool" where
  "LETTERS c = (c \<in> set ''abcdefghijklmnopqrstuvwxyzABCDEFGHIJKLMNOPQRSTUVWXYZ'')"

text \<open>
  The three inner loops. Each has the shape
  \<^verbatim>\<open>while (test(char)) { value += char; char = input[++current]; }\<close>
  and returns the cursor and the collected text.
\<close>

partial_function (option) numbers_loop ::
  "string \<Rightarrow> nat \<Rightarrow> char option \<Rightarrow> string \<Rightarrow> (nat \<times> string) option" where
  "numbers_loop input current char value =
     (if re_test NUMBERS char
      then numbers_loop input (current + 1) (elem_at input (current + 1)) (value @ to_string char)
      else Some (current, value))"

partial_function (option) string_loop ::
  "string \<Rightarrow> nat \<Rightarrow> char option \<Rightarrow> string \<Rightarrow> (nat \<times> string) option" where
  "string_loop input current char value =
     (if char \<noteq> Some (CHR 0x22)
      then string_loop input (current + 1) (elem_at input (current + 1)) (value @ to_string char)
      else Some (current, value))"

partial_function (option) letters_loop ::
  "string \<Rightarrow> nat \<Rightarrow> char option \<Rightarrow> string \<Rightarrow> (nat \<times> string) option" where
  "letters_loop input current char value =
     (if re_test LETTERS char
      then letters_loop input (current + 1) (elem_at input (current + 1)) (value @ to_string char)
      else Some (current, value))"

text \<open>
  The main loop \<^verbatim>\<open>while (current < input.length)\<close>. In the branch of the double quote
  (code unit \<open>0x22\<close>) the cursor is advanced once, past the opening quote, before the inner
  loop; after the inner loop the source pushes the token and continues, with the cursor
  still on the closing quote.
\<close>

partial_function (option) tokenizer_loop ::
  "string \<Rightarrow> nat \<Rightarrow> Token list \<Rightarrow> (error + Token list) option" where
  "tokenizer_loop input current tokens =
     (if current < length input then
        (let char = input ! current in
         if char = CHR ''('' \<or> char = CHR '')'' then
           tokenizer_loop input (current + 1) (tokens @ [Token TokenType_paren [char]])
         else if re_test WHITESPACE (Some char) then
           tokenizer_loop input (current + 1) tokens
         else if re_test NUMBERS (Some char) then
           Option.bind (numbers_loop input current (Some char) [])
             (\<lambda>(current', value).
                tokenizer_loop input current' (tokens @ [Token TokenType_number value]))
         else if char = CHR 0x22 then
           Option.bind (string_loop input (current + 1) (elem_at input (current + 1)) [])
             (\<lambda>(current', value).
                tokenizer_loop input current' (tokens @ [Token TokenType_string value]))
         else if re_test LETTERS (Some char) then
           Option.bind (letters_loop input current (Some char) [])
             (\<lambda>(current', value).
                tokenizer_loop input current' (tokens @ [Token TokenType_name value]))
         else Some (Inl (TypeError (''I dont know what this char is: '' @ [char]))))
      else Some (Inr tokens))"

definition tokenizer :: "string \<Rightarrow> (error + Token list) option" where
  "tokenizer input = tokenizer_loop input 0 []"

subsection \<open>Syntax trees\<close>

text \<open>
  Every \<open>ASTNode\<close> object has the mutable field \<open>_context\<close> (all other fields are
  \<open>readonly\<close>); it is the first argument of every constructor below, \<open>None\<close> for
  \<open>undefined\<close>. The transformer stores in it a reference to an array of the new tree.
  All arrays the transformer allocates hang under the body of the new \<open>ProgramNode\<close>, so a
  reference is the position of the array in the new tree: \<open>[]\<close> is the body itself, and
  \<open>p @ [i]\<close> is the \<open>args\<close> array of the call that is element \<open>i\<close> of the array at \<open>p\<close>.

  \<open>ProgramNode\<close> is constructed only as a root (by \<open>parser\<close> and by \<open>transformer\<close>) and is
  a type of its own; \<open>Identifier\<close> is constructed only as the callee of a
  \<open>JsCallExpression\<close>.
\<close>

type_synonym ctx = "nat list option"

datatype ASTNodeType =
    ASTNodeType_NumberLiteral
  | ASTNodeType_StringLiteral
  | ASTNodeType_CallExpression
  | ASTNodeType_Program
  | ASTNodeType_ExpressionStatement
  | ASTNodeType_Identifier

datatype Identifier = Identifier ctx string

datatype ASTNode =
    NumberLiteral ctx string
  | StringLiteral ctx string
  | CallExpression ctx string "ASTNode list"
  | JsExpressionStatement ctx ASTNode
  | JsCallExpression ctx Identifier "ASTNode list"

datatype ProgramNode = ProgramNode ctx "ASTNode list"

text \<open>The tag each constructor passes to \<open>super\<close>; \<open>JsCallExpression\<close> passes
  \<open>ASTNodeType.CallExpression\<close> too.\<close>

fun ASTNode_type :: "ASTNode \<Rightarrow> ASTNodeType" where
  "ASTNode_type (NumberLiteral c v) = ASTNodeType_NumberLiteral"
| "ASTNode_type (StringLiteral c v) = ASTNodeType_StringLiteral"
| "ASTNode_type (CallExpression c n ps) = ASTNodeType_CallExpression"
| "ASTNode_type (JsExpressionStatement c e) = ASTNodeType_ExpressionStatement"
| "ASTNode_type (JsCallExpression c f as) = ASTNodeType_CallExpression"

fun ASTNode_context :: "ASTNode \<Rightarrow> ctx" where
  "ASTNode_context (NumberLiteral c v) = c"
| "ASTNode_context (StringLiteral c v) = c"
| "ASTNode_context (CallExpression c n ps) = c"
| "ASTNode_context (JsExpressionStatement c e) = c"
| "ASTNode_context (JsCallExpression c f as) = c"

fun ASTNode_set_context :: "ASTNode \<Rightarrow> ctx \<Rightarrow> ASTNode" where
  "ASTNode_set_context (NumberLiteral c v) c' = NumberLiteral c' v"
| "ASTNode_set_context (StringLiteral c v) c' = StringLiteral c' v"
| "ASTNode_set_context (CallExpression c n ps) c' = CallExpression c' n ps"
| "ASTNode_set_context (JsExpressionStatement c e) c' = JsExpressionStatement c' e"
| "ASTNode_set_context (JsCallExpression c f as) c' = JsCallExpression c' f as"

subsection \<open>The parser\<close>

text \<open>
  \<open>walk\<close> reads \<open>tokens[current]\<close> and moves the cursor; it returns the node and the new
  cursor. \<open>walk_params\<close> is the \<^verbatim>\<open>while\<close> loop that collects the parameters of a call.
  Reading \<open>.type\<close> or \<open>.value\<close> of a token beyond the end of the array is an
  \<open>EngineTypeError\<close>.
\<close>

function walk :: "Token list \<Rightarrow> nat \<Rightarrow> error + (ASTNode \<times> nat)"
  and walk_params :: "Token list \<Rightarrow> nat \<Rightarrow> ASTNode list \<Rightarrow> error + (ASTNode list \<times> nat)"
where
  "walk tokens current =
     (case elem_at tokens current of
        None \<Rightarrow> Inl (EngineTypeError ''undefined.type'')
      | Some token \<Rightarrow>
          if token_type token = TokenType_number then
            Inr (NumberLiteral None (token_value token), current + 1)
          else if token_type token = TokenType_string then
            Inr (StringLiteral None (token_value token), current + 1)
          else if token_type token = TokenType_paren \<and> token_value token = ''('' then
            (case elem_at tokens (current + 1) of
               None \<Rightarrow> Inl (EngineTypeError ''undefined.value'')
             | Some name_token \<Rightarrow>
                (case walk_params tokens (current + 2) [] of
                   Inl e \<Rightarrow> Inl e
                 | Inr (params, current') \<Rightarrow>
                     Inr (CallExpression None (token_value name_token) params, current' + 1)))
          else Inl (TypeError (TokenType_toString (token_type token))))"
| "walk_params tokens current params =
     (case elem_at tokens current of
        None \<Rightarrow> Inl (EngineTypeError ''undefined.type'')
      | Some token \<Rightarrow>
          if token_type token \<noteq> TokenType_paren \<or>
             (token_type token = TokenType_paren \<and> token_value token \<noteq> '')'')
          then (case walk tokens current of
                  Inl e \<Rightarrow> Inl e
                | Inr (node, current') \<Rightarrow> walk_params tokens current' (params @ [node]))
          else Inr (params, current))"
  by pat_completeness auto

lemma walk_advances_dom:
  "walk_walk_params_dom (Inl (tokens, current)) \<Longrightarrow>
     walk tokens current = Inr (node, c') \<Longrightarrow> current < c'"
  "walk_walk_params_dom (Inr (tokens, current, params)) \<Longrightarrow>
     walk_params tokens current params = Inr (ps, c') \<Longrightarrow> current \<le> c'"
proof (induction tokens current and tokens current params arbitrary: node c' and ps c'
       rule: walk_walk_params.pinduct)
  case (1 tokens current)
  from "1.prems" "1.hyps" show ?case
    apply (simp only: walk.psimps)
    apply (simp split: option.splits if_splits sum.splits prod.splits)
    using "1.IH" apply fastforce
    done
next
  case (2 tokens current params)
  show ?case
  proof (cases "elem_at tokens current")
    case None
    with "2.prems" "2.hyps" show ?thesis by (simp add: walk_params.psimps)
  next
    case (Some token)
    show ?thesis
    proof (cases "token_type token \<noteq> TokenType_paren \<or>
             (token_type token = TokenType_paren \<and> token_value token \<noteq> '')'')")
      case False
      with Some "2.prems" "2.hyps" show ?thesis by (simp add: walk_params.psimps)
    next
      case True
      with Some "2.prems" "2.hyps" obtain node y where
        w: "walk tokens current = Inr (node, y)" and
        r: "walk_params tokens y (params @ [node]) = Inr (ps, c')"
        by (auto simp: walk_params.psimps split: sum.splits)
      from "2.IH"(1)[OF Some True w] have "current < y" .
      moreover from "2.IH"(2)[OF Some True w refl r] have "y \<le> c'" .
      ultimately show ?thesis by simp
    qed
  qed
qed

termination walk
proof (relation "measure (\<lambda>x. case x of
          Inl (tokens, current) \<Rightarrow> 2 * (length tokens - current)
        | Inr (tokens, current, params) \<Rightarrow> 2 * (length tokens - current) + 1)",
       goal_cases)
  case 1
  show ?case by simp
next
  case (2 tokens current token name_token)
  then show ?case by (simp add: elem_at_def split: if_splits)
next
  case (3 tokens current params token)
  then show ?case by simp
next
  case (4 tokens current params token b node y)
  then have "current < y" using walk_advances_dom(1) by metis
  with 4 show ?case by (simp add: elem_at_def split: if_splits)
qed

declare walk.simps [simp del] walk_params.simps [simp del]

lemma walk_advances_both:
  "walk tokens current = Inr (node, c') \<Longrightarrow> current < c'"
  "walk_params tokens current params = Inr (ps, c') \<Longrightarrow> current \<le> c'"
proof (induction tokens current and tokens current params arbitrary: node c' and ps c'
       rule: walk_walk_params.induct)
  case (1 tokens current)
  from "1.prems" show ?case
    apply (simp only: walk.simps [of tokens current])
    apply (simp split: option.splits if_splits sum.splits prod.splits)
    using "1.IH" apply fastforce
    done
next
  case (2 tokens current params)
  show ?case
  proof (cases "elem_at tokens current")
    case None
    with "2.prems" show ?thesis by (simp add: walk_params.simps [of tokens current])
  next
    case (Some token)
    show ?thesis
    proof (cases "token_type token \<noteq> TokenType_paren \<or>
             (token_type token = TokenType_paren \<and> token_value token \<noteq> '')'')")
      case False
      with Some "2.prems" show ?thesis by (simp add: walk_params.simps [of tokens current])
    next
      case True
      with Some "2.prems" obtain node y where
        w: "walk tokens current = Inr (node, y)" and
        r: "walk_params tokens y (params @ [node]) = Inr (ps, c')"
        by (auto simp: walk_params.simps [of tokens current] split: sum.splits)
      from "2.IH"(1)[OF Some True w] have "current < y" .
      moreover from "2.IH"(2)[OF Some True w refl r] have "y \<le> c'" .
      ultimately show ?thesis by simp
    qed
  qed
qed

lemmas walk_advances = walk_advances_both(1)

text \<open>The loop \<^verbatim>\<open>while (current < tokens.length) ast.body.push(walk())\<close>.\<close>

function parser_loop :: "Token list \<Rightarrow> nat \<Rightarrow> ASTNode list \<Rightarrow> error + ASTNode list" where
  "parser_loop tokens current body =
     (if current < length tokens then
        (case walk tokens current of
           Inl e \<Rightarrow> Inl e
         | Inr (node, current') \<Rightarrow> parser_loop tokens current' (body @ [node]))
      else Inr body)"
  by pat_completeness auto
termination
proof (relation "measure (\<lambda>(tokens, current, body). length tokens - current)", goal_cases)
  case 1
  show ?case by simp
next
  case (2 tokens current body b node y)
  then have "current < y" using walk_advances by metis
  with 2 show ?case by simp
qed

declare parser_loop.simps [simp del]

definition parser :: "Token list \<Rightarrow> error + ProgramNode" where
  "parser tokens =
     (case parser_loop tokens 0 [] of
        Inl e \<Rightarrow> Inl e
      | Inr body \<Rightarrow> Inr (ProgramNode None body))"


subsection \<open>Code generation\<close>

text \<open>\<open>Array.prototype.join\<close> on an array of strings.\<close>

fun join :: "string \<Rightarrow> string list \<Rightarrow> string" where
  "join sep [] = []"
| "join sep [x] = x"
| "join sep (x # y # ys) = x @ sep @ join sep (y # ys)"

text \<open>
  The method \<open>generateJsCode\<close> of each class. \<open>CallExpression\<close> does not override it and
  inherits the method of \<open>ASTNode\<close>, which throws. \<open>generateJsCode_map\<close> is
  \<^verbatim>\<open>xs.map(it => it.generateJsCode())\<close>: the first exception ends the map.
\<close>

fun Identifier_generateJsCode :: "Identifier \<Rightarrow> error + string" where
  "Identifier_generateJsCode (Identifier c name) = Inr name"

fun generateJsCode :: "ASTNode \<Rightarrow> error + string"
  and generateJsCode_map :: "ASTNode list \<Rightarrow> error + string list"
where
  "generateJsCode (NumberLiteral c value) = Inr value"
| "generateJsCode (StringLiteral c value) = Inr ([CHR 0x22] @ value @ [CHR 0x22])"
| "generateJsCode (CallExpression c name params) = Inl (Error ''NotImplemented'')"
| "generateJsCode (JsExpressionStatement c expression) =
     (case generateJsCode expression of
        Inl e \<Rightarrow> Inl e
      | Inr code \<Rightarrow> Inr (code @ '';''))"
| "generateJsCode (JsCallExpression c callee args) =
     (case Identifier_generateJsCode callee of
        Inl e \<Rightarrow> Inl e
      | Inr callee_code \<Rightarrow>
          (case generateJsCode_map args of
             Inl e \<Rightarrow> Inl e
           | Inr codes \<Rightarrow> Inr (callee_code @ ''('' @ join '', '' codes @ '')'')))"
| "generateJsCode_map [] = Inr []"
| "generateJsCode_map (node # nodes) =
     (case generateJsCode node of
        Inl e \<Rightarrow> Inl e
      | Inr code \<Rightarrow>
          (case generateJsCode_map nodes of
             Inl e \<Rightarrow> Inl e
           | Inr codes \<Rightarrow> Inr (code # codes)))"

fun ProgramNode_generateJsCode :: "ProgramNode \<Rightarrow> error + string" where
  "ProgramNode_generateJsCode (ProgramNode c body) =
     (case generateJsCode_map body of
        Inl e \<Rightarrow> Inl e
      | Inr codes \<Rightarrow> Inr (join [CHR 0x0A] codes))"

text \<open>\<open>codeGenerator\<close> calls the method of its argument; the compiler applies it to the
  new \<open>ProgramNode\<close>.\<close>

definition codeGenerator :: "ProgramNode \<Rightarrow> error + string" where
  "codeGenerator node = ProgramNode_generateJsCode node"

subsection \<open>References into the new tree\<close>

text \<open>
  \<open>array_at p body\<close> is the array a reference \<open>p\<close> denotes in the new tree with body
  \<open>body\<close>, and \<open>push_at p x body\<close> is the new tree after \<open>push(x)\<close> on that array. A call of the
  new tree is an array element either bare or inside a \<open>JsExpressionStatement\<close>.
\<close>

fun args_of :: "ASTNode \<Rightarrow> ASTNode list option" where
  "args_of (JsCallExpression c callee args) = Some args"
| "args_of (JsExpressionStatement c (JsCallExpression c' callee args)) = Some args"
| "args_of _ = None"

fun with_args :: "ASTNode \<Rightarrow> ASTNode list \<Rightarrow> ASTNode" where
  "with_args (JsCallExpression c callee args) a = JsCallExpression c callee a"
| "with_args (JsExpressionStatement c (JsCallExpression c' callee args)) a =
     JsExpressionStatement c (JsCallExpression c' callee a)"
| "with_args node a = node"

fun array_at :: "nat list \<Rightarrow> ASTNode list \<Rightarrow> ASTNode list option" where
  "array_at [] arr = Some arr"
| "array_at (i # p) arr =
     (if i < length arr then
        (case args_of (arr ! i) of
           None \<Rightarrow> None
         | Some a \<Rightarrow> array_at p a)
      else None)"

fun push_at :: "nat list \<Rightarrow> ASTNode \<Rightarrow> ASTNode list \<Rightarrow> ASTNode list option" where
  "push_at [] x arr = Some (arr @ [x])"
| "push_at (i # p) x arr =
     (if i < length arr then
        (case args_of (arr ! i) of
           None \<Rightarrow> None
         | Some a \<Rightarrow>
             (case push_at p x a of
                None \<Rightarrow> None
              | Some a' \<Rightarrow> Some (arr[i := with_args (arr ! i) a'])))
      else None)"

subsection \<open>The traverser\<close>

text \<open>
  A callback of a visitor receives \<open>(node, parent)\<close>; \<open>parent\<close> is \<open>null\<close> for the root. The
  only field of a node a callback can assign is \<open>_context\<close>, so a callback returns the
  \<open>_context\<close> of its node and the state \<open>'s\<close> it works on, or throws. A visitor maps a
  node type to its \<open>methods\<close>, each with an optional \<open>enter\<close> and an optional \<open>exit\<close>.
\<close>

datatype Node = ProgramObject ProgramNode | ASTObject ASTNode

fun Node_type :: "Node \<Rightarrow> ASTNodeType" where
  "Node_type (ProgramObject p) = ASTNodeType_Program"
| "Node_type (ASTObject n) = ASTNode_type n"

fun Node_context :: "Node \<Rightarrow> ctx" where
  "Node_context (ProgramObject (ProgramNode c body)) = c"
| "Node_context (ASTObject n) = ASTNode_context n"

type_synonym 's callback = "Node \<Rightarrow> Node option \<Rightarrow> 's \<Rightarrow> error + (ctx \<times> 's)"

record 's methods =
  enter :: "'s callback option"
  exit :: "'s callback option"

type_synonym 's visitor = "ASTNodeType \<Rightarrow> 's methods option"

text \<open>\<^verbatim>\<open>if (methods && methods.enter) methods.enter(node, parent)\<close>, and the same for
  \<open>exit\<close>.\<close>

definition call_enter ::
  "'s methods option \<Rightarrow> Node \<Rightarrow> Node option \<Rightarrow> 's \<Rightarrow> error + (ctx \<times> 's)" where
  "call_enter ms node parent s =
     (case ms of
        None \<Rightarrow> Inr (Node_context node, s)
      | Some m \<Rightarrow>
          (case enter m of
             None \<Rightarrow> Inr (Node_context node, s)
           | Some f \<Rightarrow> f node parent s))"

definition call_exit ::
  "'s methods option \<Rightarrow> Node \<Rightarrow> Node option \<Rightarrow> 's \<Rightarrow> error + (ctx \<times> 's)" where
  "call_exit ms node parent s =
     (case ms of
        None \<Rightarrow> Inr (Node_context node, s)
      | Some m \<Rightarrow>
          (case exit m of
             None \<Rightarrow> Inr (Node_context node, s)
           | Some f \<Rightarrow> f node parent s))"

text \<open>
  \<open>traverseNode\<close> returns the node as the traversal leaves it and the state. The
  \<^verbatim>\<open>switch\<close> on the type descends into \<open>params\<close> for the type \<open>CallExpression\<close> and
  does nothing for the literals and for the types without a case. A \<open>JsCallExpression\<close>
  has the type \<open>CallExpression\<close> and no field \<open>params\<close>: iterating over \<open>undefined\<close> throws.
\<close>

fun traverseNode :: "'s visitor \<Rightarrow> ASTNode \<Rightarrow> Node option \<Rightarrow> 's \<Rightarrow> error + (ASTNode \<times> 's)"
  and traverseArray :: "'s visitor \<Rightarrow> ASTNode list \<Rightarrow> Node \<Rightarrow> 's \<Rightarrow> error + (ASTNode list \<times> 's)"
where
  "traverseNode visitor (NumberLiteral c value) parent s =
     (let methods = visitor ASTNodeType_NumberLiteral in
      case call_enter methods (ASTObject (NumberLiteral c value)) parent s of
        Inl e \<Rightarrow> Inl e
      | Inr (c1, s1) \<Rightarrow>
          (case call_exit methods (ASTObject (NumberLiteral c1 value)) parent s1 of
             Inl e \<Rightarrow> Inl e
           | Inr (c2, s2) \<Rightarrow> Inr (NumberLiteral c2 value, s2)))"
| "traverseNode visitor (StringLiteral c value) parent s =
     (let methods = visitor ASTNodeType_StringLiteral in
      case call_enter methods (ASTObject (StringLiteral c value)) parent s of
        Inl e \<Rightarrow> Inl e
      | Inr (c1, s1) \<Rightarrow>
          (case call_exit methods (ASTObject (StringLiteral c1 value)) parent s1 of
             Inl e \<Rightarrow> Inl e
           | Inr (c2, s2) \<Rightarrow> Inr (StringLiteral c2 value, s2)))"
| "traverseNode visitor (CallExpression c name params) parent s =
     (let methods = visitor ASTNodeType_CallExpression in
      case call_enter methods (ASTObject (CallExpression c name params)) parent s of
        Inl e \<Rightarrow> Inl e
      | Inr (c1, s1) \<Rightarrow>
          (case traverseArray visitor params (ASTObject (CallExpression c1 name params)) s1 of
             Inl e \<Rightarrow> Inl e
           | Inr (params1, s2) \<Rightarrow>
               (case call_exit methods (ASTObject (CallExpression c1 name params1)) parent s2 of
                  Inl e \<Rightarrow> Inl e
                | Inr (c2, s3) \<Rightarrow> Inr (CallExpression c2 name params1, s3))))"
| "traverseNode visitor (JsExpressionStatement c expression) parent s =
     (let methods = visitor ASTNodeType_ExpressionStatement in
      case call_enter methods (ASTObject (JsExpressionStatement c expression)) parent s of
        Inl e \<Rightarrow> Inl e
      | Inr (c1, s1) \<Rightarrow>
          (case call_exit methods (ASTObject (JsExpressionStatement c1 expression)) parent s1 of
             Inl e \<Rightarrow> Inl e
           | Inr (c2, s2) \<Rightarrow> Inr (JsExpressionStatement c2 expression, s2)))"
| "traverseNode visitor (JsCallExpression c callee args) parent s =
     (let methods = visitor ASTNodeType_CallExpression in
      case call_enter methods (ASTObject (JsCallExpression c callee args)) parent s of
        Inl e \<Rightarrow> Inl e
      | Inr (c1, s1) \<Rightarrow> Inl (EngineTypeError ''undefined is not iterable''))"
| "traverseArray visitor [] parent s = Inr ([], s)"
| "traverseArray visitor (node # nodes) parent s =
     (case traverseNode visitor node (Some parent) s of
        Inl e \<Rightarrow> Inl e
      | Inr (node1, s1) \<Rightarrow>
          (case traverseArray visitor nodes parent s1 of
             Inl e \<Rightarrow> Inl e
           | Inr (nodes1, s2) \<Rightarrow> Inr (node1 # nodes1, s2)))"

text \<open>\<open>traverser\<close> starts at the root with no parent. It returns the tree as the
  traversal leaves it and the state.\<close>

fun traverser :: "ProgramNode \<Rightarrow> 's visitor \<Rightarrow> 's \<Rightarrow> error + (ProgramNode \<times> 's)" where
  "traverser (ProgramNode c body) visitor s =
     (let methods = visitor ASTNodeType_Program in
      case call_enter methods (ProgramObject (ProgramNode c body)) None s of
        Inl e \<Rightarrow> Inl e
      | Inr (c1, s1) \<Rightarrow>
          (case traverseArray visitor body (ProgramObject (ProgramNode c1 body)) s1 of
             Inl e \<Rightarrow> Inl e
           | Inr (body1, s2) \<Rightarrow>
               (case call_exit methods (ProgramObject (ProgramNode c1 body1)) None s2 of
                  Inl e \<Rightarrow> Inl e
                | Inr (c2, s3) \<Rightarrow> Inr (ProgramNode c2 body1, s3))))"

subsection \<open>The transformer\<close>

text \<open>
  The state of the transformer's visitor is the body of the new tree.
  \<open>context_push parent x\<close> is \<^verbatim>\<open>parent._context.push(x)\<close>. The read of \<open>_context\<close> fails on
  \<open>null\<close>, and \<open>push\<close> fails on \<open>undefined\<close>.
\<close>

definition context_push :: "Node option \<Rightarrow> ASTNode \<Rightarrow> ASTNode list \<Rightarrow> error + ASTNode list" where
  "context_push parent x body =
     (case parent of
        None \<Rightarrow> Inl (EngineTypeError ''null._context'')
      | Some p \<Rightarrow>
          (case Node_context p of
             None \<Rightarrow> Inl (EngineTypeError ''undefined.push'')
           | Some r \<Rightarrow>
               (case push_at r x body of
                  None \<Rightarrow> Inl (EngineTypeError ''_context is not an array of the new tree'')
                | Some body1 \<Rightarrow> Inr body1)))"

text \<open>The \<open>enter\<close> callbacks of the visitor. The visitor is indexed by the type of the
  node, so the callback of a literal receives a literal.\<close>

fun NumberLiteral_enter :: "(ASTNode list) callback" where
  "NumberLiteral_enter (ASTObject (NumberLiteral c value)) parent body =
     (case context_push parent (NumberLiteral None value) body of
        Inl e \<Rightarrow> Inl e
      | Inr body1 \<Rightarrow> Inr (c, body1))"
| "NumberLiteral_enter node parent body = Inl (EngineTypeError ''not a NumberLiteral'')"

fun StringLiteral_enter :: "(ASTNode list) callback" where
  "StringLiteral_enter (ASTObject (StringLiteral c value)) parent body =
     (case context_push parent (StringLiteral None value) body of
        Inl e \<Rightarrow> Inl e
      | Inr body1 \<Rightarrow> Inr (c, body1))"
| "StringLiteral_enter node parent body = Inl (EngineTypeError ''not a StringLiteral'')"

text \<open>
  The callback of \<open>CallExpression\<close> creates \<open>expression\<close> with an empty \<open>args\<close> array, stores a
  reference to that array in \<open>node._context\<close>, and pushes \<open>expression\<close>, wrapped in a statement
  when the parent is not a call, on the array \<open>parent._context\<close>. The new \<open>args\<close> array is
  the one of the element just pushed: its reference is the reference of the parent's array
  followed by the index of the new element. A \<open>JsCallExpression\<close> node has no \<open>name\<close>;
  the traversal fails right after its callback.
\<close>

fun CallExpression_enter :: "(ASTNode list) callback" where
  "CallExpression_enter (ASTObject (CallExpression c name params)) parent body =
     (let expression = JsCallExpression None (Identifier None name) [] in
      case parent of
        None \<Rightarrow> Inl (EngineTypeError ''null.type'')
      | Some p \<Rightarrow>
          (let c1 = (case Node_context p of
                       None \<Rightarrow> None
                     | Some r \<Rightarrow>
                         (case array_at r body of
                            None \<Rightarrow> None
                          | Some arr \<Rightarrow> Some (r @ [length arr])))
           in
           if Node_type p \<noteq> ASTNodeType_CallExpression then
             (case context_push parent (JsExpressionStatement None expression) body of
                Inl e \<Rightarrow> Inl e
              | Inr body1 \<Rightarrow> Inr (c1, body1))
           else
             (case context_push parent expression body of
                Inl e \<Rightarrow> Inl e
              | Inr body1 \<Rightarrow> Inr (c1, body1))))"
| "CallExpression_enter node parent body = Inl (EngineTypeError ''undefined is not iterable'')"

fun transformer_visitor :: "(ASTNode list) visitor" where
  "transformer_visitor ASTNodeType_NumberLiteral =
     Some \<lparr>enter = Some NumberLiteral_enter, exit = None\<rparr>"
| "transformer_visitor ASTNodeType_StringLiteral =
     Some \<lparr>enter = Some StringLiteral_enter, exit = None\<rparr>"
| "transformer_visitor ASTNodeType_CallExpression =
     Some \<lparr>enter = Some CallExpression_enter, exit = None\<rparr>"
| "transformer_visitor t = None"

text \<open>
  \<open>transformer\<close> creates the new \<open>ProgramNode\<close> with an empty body, stores the reference to
  that body in \<open>ast._context\<close> and traverses. It returns \<open>newAst\<close>; the model returns with it
  the tree \<open>ast\<close> as the call leaves it.
\<close>

fun transformer :: "ProgramNode \<Rightarrow> error + (ProgramNode \<times> ProgramNode)" where
  "transformer (ProgramNode c body) =
     (case traverser (ProgramNode (Some []) body) transformer_visitor [] of
        Inl e \<Rightarrow> Inl e
      | Inr (ast1, newAst_body) \<Rightarrow> Inr (ast1, ProgramNode None newAst_body))"

subsection \<open>The compiler\<close>

definition compiler :: "string \<Rightarrow> (error + string) option" where
  "compiler input =
     (case tokenizer input of
        None \<Rightarrow> None
      | Some (Inl e) \<Rightarrow> Some (Inl e)
      | Some (Inr tokens) \<Rightarrow>
          Some (case parser tokens of
                  Inl e \<Rightarrow> Inl e
                | Inr ast \<Rightarrow>
                    (case transformer ast of
                       Inl e \<Rightarrow> Inl e
                     | Inr (ast1, newAst) \<Rightarrow> codeGenerator newAst)))"

subsection \<open>The heap that calls could share\<close>

text \<open>
  The functions above keep the one new tree of a call as their state. To speak about
  several calls, the arrays of all new trees built so far are kept: a \<open>world\<close> is the
  list of the bodies of these trees, in the order of their creation, and a reference
  \<open>t # p\<close> is the array at \<open>p\<close> in the tree number \<open>t\<close>. A reference of an earlier call
  denotes an array of the tree of that call, not of the new one.
\<close>

type_synonym world = "ASTNode list list"

definition world_array_at :: "nat list \<Rightarrow> world \<Rightarrow> ASTNode list option" where
  "world_array_at r w =
     (case r of
        [] \<Rightarrow> None
      | t # p \<Rightarrow> (if t < length w then array_at p (w ! t) else None))"

definition world_push_at :: "nat list \<Rightarrow> ASTNode \<Rightarrow> world \<Rightarrow> world option" where
  "world_push_at r x w =
     (case r of
        [] \<Rightarrow> None
      | t # p \<Rightarrow>
          (if t < length w then
             (case push_at p x (w ! t) of
                None \<Rightarrow> None
              | Some body \<Rightarrow> Some (w[t := body]))
           else None))"

text \<open>\<^verbatim>\<open>parent._context.push(x)\<close> and the callbacks of the visitor, on a world.\<close>

definition context_push_in :: "Node option \<Rightarrow> ASTNode \<Rightarrow> world \<Rightarrow> error + world" where
  "context_push_in parent x w =
     (case parent of
        None \<Rightarrow> Inl (EngineTypeError ''null._context'')
      | Some p \<Rightarrow>
          (case Node_context p of
             None \<Rightarrow> Inl (EngineTypeError ''undefined.push'')
           | Some r \<Rightarrow>
               (case world_push_at r x w of
                  None \<Rightarrow> Inl (EngineTypeError ''_context is not an array of the world'')
                | Some w1 \<Rightarrow> Inr w1)))"

fun NumberLiteral_enter_in :: "world callback" where
  "NumberLiteral_enter_in (ASTObject (NumberLiteral c value)) parent w =
     (case context_push_in parent (NumberLiteral None value) w of
        Inl e \<Rightarrow> Inl e
      | Inr w1 \<Rightarrow> Inr (c, w1))"
| "NumberLiteral_enter_in node parent w = Inl (EngineTypeError ''not a NumberLiteral'')"

fun StringLiteral_enter_in :: "world callback" where
  "StringLiteral_enter_in (ASTObject (StringLiteral c value)) parent w =
     (case context_push_in parent (StringLiteral None value) w of
        Inl e \<Rightarrow> Inl e
      | Inr w1 \<Rightarrow> Inr (c, w1))"
| "StringLiteral_enter_in node parent w = Inl (EngineTypeError ''not a StringLiteral'')"

fun CallExpression_enter_in :: "world callback" where
  "CallExpression_enter_in (ASTObject (CallExpression c name params)) parent w =
     (let expression = JsCallExpression None (Identifier None name) [] in
      case parent of
        None \<Rightarrow> Inl (EngineTypeError ''null.type'')
      | Some p \<Rightarrow>
          (let c1 = (case Node_context p of
                       None \<Rightarrow> None
                     | Some r \<Rightarrow>
                         (case world_array_at r w of
                            None \<Rightarrow> None
                          | Some arr \<Rightarrow> Some (r @ [length arr])))
           in
           if Node_type p \<noteq> ASTNodeType_CallExpression then
             (case context_push_in parent (JsExpressionStatement None expression) w of
                Inl e \<Rightarrow> Inl e
              | Inr w1 \<Rightarrow> Inr (c1, w1))
           else
             (case context_push_in parent expression w of
                Inl e \<Rightarrow> Inl e
              | Inr w1 \<Rightarrow> Inr (c1, w1))))"
| "CallExpression_enter_in node parent w = Inl (EngineTypeError ''undefined is not iterable'')"

fun transformer_visitor_in :: "world visitor" where
  "transformer_visitor_in ASTNodeType_NumberLiteral =
     Some \<lparr>enter = Some NumberLiteral_enter_in, exit = None\<rparr>"
| "transformer_visitor_in ASTNodeType_StringLiteral =
     Some \<lparr>enter = Some StringLiteral_enter_in, exit = None\<rparr>"
| "transformer_visitor_in ASTNodeType_CallExpression =
     Some \<lparr>enter = Some CallExpression_enter_in, exit = None\<rparr>"
| "transformer_visitor_in t = None"

text \<open>
  \<^verbatim>\<open>new ProgramNode([])\<close> allocates the body of the new tree at the end of the world;
  the call returns \<open>newAst\<close> with the body the traversal has left there, the tree \<open>ast\<close>
  as the call leaves it, and the world.
\<close>

fun transformer_in :: "ProgramNode \<Rightarrow> world \<Rightarrow> error + ((ProgramNode \<times> ProgramNode) \<times> world)" where
  "transformer_in (ProgramNode c body) w =
     (let newAst_body = [length w] in
      case traverser (ProgramNode (Some newAst_body) body) transformer_visitor_in (w @ [[]]) of
        Inl e \<Rightarrow> Inl e
      | Inr (ast1, w1) \<Rightarrow>
          (case world_array_at newAst_body w1 of
             None \<Rightarrow> Inl (EngineTypeError ''undefined.map'')
           | Some body1 \<Rightarrow> Inr ((ast1, ProgramNode None body1), w1)))"

text \<open>The compiler in a world: it returns the text and the world the call leaves, or
  throws. The tokenizer and the parser build their results afresh.\<close>

definition compiler_in :: "string \<Rightarrow> world \<Rightarrow> (error + (string \<times> world)) option" where
  "compiler_in input w =
     (case tokenizer input of
        None \<Rightarrow> None
      | Some (Inl e) \<Rightarrow> Some (Inl e)
      | Some (Inr tokens) \<Rightarrow>
          Some (case parser tokens of
                  Inl e \<Rightarrow> Inl e
                | Inr ast \<Rightarrow>
                    (case transformer_in ast w of
                       Inl e \<Rightarrow> Inl e
                     | Inr ((ast1, newAst), w1) \<Rightarrow>
                         (case codeGenerator newAst of
                            Inl e \<Rightarrow> Inl e
                          | Inr output \<Rightarrow> Inr (output, w1)))))"

section \<open>Notions of the specification\<close>

text \<open>
  The definitions of this section are not translated from the source: they state what the
  specification says, or describe a state, and the properties compare the program with them.
\<close>

subsection \<open>The text of a target node\<close>

text \<open>
  The rules of the specification, as a function of their own: a number is its text, a
  string is its text between double quotes, an identifier is its name, a call is the
  callee, an opening parenthesis, the arguments joined with a comma and a space, and a
  closing parenthesis; an expression statement is its expression followed by a
  semicolon. A target node is a node built from these kinds only; the specification says
  nothing about the text of any other node.
\<close>

fun render_identifier :: "Identifier \<Rightarrow> string" where
  "render_identifier (Identifier c name) = name"

fun render :: "ASTNode \<Rightarrow> string" where
  "render (NumberLiteral c value) = value"
| "render (StringLiteral c value) = [CHR 0x22] @ value @ [CHR 0x22]"
| "render (JsCallExpression c callee args) =
     render_identifier callee @ ''('' @ join '', '' (map render args) @ '')''"
| "render (JsExpressionStatement c expression) = render expression @ '';''"
| "render (CallExpression c name params) = []"

fun is_target :: "ASTNode \<Rightarrow> bool" and all_target :: "ASTNode list \<Rightarrow> bool" where
  "is_target (NumberLiteral c value) = True"
| "is_target (StringLiteral c value) = True"
| "is_target (JsCallExpression c callee args) = all_target args"
| "is_target (JsExpressionStatement c expression) = is_target expression"
| "is_target (CallExpression c name params) = False"
| "all_target [] = True"
| "all_target (node # nodes) = (is_target node \<and> all_target nodes)"

subsection \<open>Source nodes and their counterparts\<close>

text \<open>
  A source node is a literal or a call over source nodes. \<open>new_expression\<close> is the
  counterpart of a source node inside a call, \<open>new_element t\<close> its counterpart in the array
  of a parent of type \<open>t\<close>: a call is wrapped in a statement when the parent is not a call.
  \<open>visited r k\<close> is a source node after the traversal, when its counterpart is element \<open>k\<close>
  of the array at \<open>r\<close>: a call holds the reference to the \<open>args\<close> of its counterpart, a
  literal is as it was.
\<close>

fun is_source :: "ASTNode \<Rightarrow> bool" and all_source :: "ASTNode list \<Rightarrow> bool" where
  "is_source (NumberLiteral c v) = True"
| "is_source (StringLiteral c v) = True"
| "is_source (CallExpression c n ps) = all_source ps"
| "is_source (JsExpressionStatement c e) = False"
| "is_source (JsCallExpression c f as) = False"
| "all_source [] = True"
| "all_source (n # ns) = (is_source n \<and> all_source ns)"

fun new_expression :: "ASTNode \<Rightarrow> ASTNode" where
  "new_expression (NumberLiteral c v) = NumberLiteral None v"
| "new_expression (StringLiteral c v) = StringLiteral None v"
| "new_expression (CallExpression c n ps) = JsCallExpression None (Identifier None n) (map new_expression ps)"
| "new_expression node = node"

fun new_element :: "ASTNodeType \<Rightarrow> ASTNode \<Rightarrow> ASTNode" where
  "new_element t (CallExpression c n ps) =
     (if t \<noteq> ASTNodeType_CallExpression
      then JsExpressionStatement None (new_expression (CallExpression c n ps))
      else new_expression (CallExpression c n ps))"
| "new_element t node = new_expression node"

fun visited :: "nat list \<Rightarrow> nat \<Rightarrow> ASTNode \<Rightarrow> ASTNode"
  and visited_list :: "nat list \<Rightarrow> nat \<Rightarrow> ASTNode list \<Rightarrow> ASTNode list" where
  "visited r k (CallExpression c n ps) = CallExpression (Some (r @ [k])) n (visited_list (r @ [k]) 0 ps)"
| "visited r k (NumberLiteral c v) = NumberLiteral c v"
| "visited r k (StringLiteral c v) = StringLiteral c v"
| "visited r k (JsExpressionStatement c e) = JsExpressionStatement c e"
| "visited r k (JsCallExpression c f as) = JsCallExpression c f as"
| "visited_list r k [] = []"
| "visited_list r k (n # ns) = visited r k n # visited_list r (Suc k) ns"

subsection \<open>The text of a source expression\<close>

text \<open>
  The text of a source expression, written from the specification: a literal as the
  generator prints it, a call as the name and the texts of its parameters in parentheses.
  The text of a top-level expression: a call is followed by a semicolon, a literal is
  not.
\<close>

fun expression_text :: "ASTNode \<Rightarrow> string" where
  "expression_text (NumberLiteral c value) = value"
| "expression_text (StringLiteral c value) = [CHR 0x22] @ value @ [CHR 0x22]"
| "expression_text (CallExpression c name params) =
     name @ ''('' @ join '', '' (map expression_text params) @ '')''"
| "expression_text node = []"

fun statement_text :: "ASTNode \<Rightarrow> string" where
  "statement_text (CallExpression c name params) =
     expression_text (CallExpression c name params) @ '';''"
| "statement_text node = expression_text node"

subsection \<open>The fields of a source tree\<close>

text \<open>
  \<open>shape\<close> is a node without the \<open>_context\<close> fields: the type, the name or value, and
  the children. \<open>slots_attached\<close> holds when every \<open>CallExpression\<close> of a tree has a
  \<open>_context\<close>; \<open>literal_slots\<close> lists the \<open>_context\<close> fields of the literals of a tree.
\<close>

fun shape :: "ASTNode \<Rightarrow> ASTNode" where
  "shape (NumberLiteral c value) = NumberLiteral None value"
| "shape (StringLiteral c value) = StringLiteral None value"
| "shape (CallExpression c name params) = CallExpression None name (map shape params)"
| "shape (JsExpressionStatement c expression) = JsExpressionStatement None (shape expression)"
| "shape (JsCallExpression c (Identifier c' name) args) =
     JsCallExpression None (Identifier None name) (map shape args)"

fun slots_attached :: "ASTNode \<Rightarrow> bool" where
  "slots_attached (CallExpression c name params) = (c \<noteq> None \<and> list_all slots_attached params)"
| "slots_attached node = True"

fun literal_slots :: "ASTNode \<Rightarrow> ctx list" where
  "literal_slots (NumberLiteral c value) = [c]"
| "literal_slots (StringLiteral c value) = [c]"
| "literal_slots (CallExpression c name params) = concat (map literal_slots params)"
| "literal_slots node = []"

subsection \<open>Auxiliary notions\<close>

text \<open>The characters the loop of a string literal collects.\<close>

definition not_quote :: "char \<Rightarrow> bool" where
  "not_quote c = (c \<noteq> CHR 0x22)"

text \<open>The characters the main loop of the tokenizer accepts, the double quote apart.\<close>

definition scannable :: "char \<Rightarrow> bool" where
  "scannable c = (c = CHR ''('' \<or> c = CHR '')'' \<or> WHITESPACE c \<or> NUMBERS c \<or> LETTERS c)"

text \<open>
  \<open>put_at r new body\<close> is the new tree \<open>body\<close> with the array at the reference \<open>r\<close>
  replaced by \<open>new\<close>; it states what \<open>push_at\<close> and the traversal do to the new tree.
\<close>

fun put_at :: "nat list \<Rightarrow> ASTNode list \<Rightarrow> ASTNode list \<Rightarrow> ASTNode list" where
  "put_at [] new arr = new"
| "put_at (i # p) new arr =
     (case args_of (arr ! i) of
        None \<Rightarrow> arr
      | Some a \<Rightarrow> arr[i := with_args (arr ! i) (put_at p new a)])"

section \<open>Properties\<close>

subsection \<open>The inner loops of the tokenizer in closed form\<close>

text \<open>
  At the end of the input \<open>char\<close> is \<open>undefined\<close>. The test of \<open>/[0-9]/\<close> on \<open>undefined\<close> is
  false, so the loop of the digits stops there. The test of \<open>/[a-z]/i\<close> on \<open>undefined\<close> is
  true, and \<open>undefined\<close> is not the double quote: the loop of the letters and the loop of the
  string literal go on beyond the end of the input, and never stop.
\<close>

lemma NUMBERS_undefined: "\<not> re_test NUMBERS None"
  by (simp add: re_test_def NUMBERS_def)

lemma LETTERS_undefined: "re_test LETTERS None"
  by (simp add: re_test_def LETTERS_def)

lemma re_test_Some: "re_test cls (Some c) = cls c"
  by (simp add: re_test_def)

lemma drop_elem_at:
  "elem_at xs i = Some x \<Longrightarrow> drop i xs = x # drop (Suc i) xs"
  by (auto simp: elem_at_def Cons_nth_drop_Suc split: if_splits)

lemma elem_at_None: "elem_at xs i = None \<Longrightarrow> drop i xs = []"
  by (auto simp: elem_at_def split: if_splits)

lemma numbers_loop_closed:
  "char = elem_at input current \<Longrightarrow>
   numbers_loop input current char value =
     Some (current + length (takeWhile NUMBERS (drop current input)),
           value @ takeWhile NUMBERS (drop current input))"
proof (induction "length input - current" arbitrary: current char "value")
  case 0
  then have "elem_at input current = None" by (simp add: elem_at_def)
  with 0 show ?case
    by (subst numbers_loop.simps) (simp add: NUMBERS_undefined elem_at_None)
next
  case (Suc n)
  from Suc.hyps(2) have "current < length input" by simp
  then obtain c where c: "elem_at input current = Some c"
    by (simp add: elem_at_def)
  have d: "drop current input = c # drop (Suc current) input"
    by (rule drop_elem_at [OF c])
  have n: "n = length input - (current + 1)" using Suc.hyps(2) by simp
  show ?case
  proof (cases "NUMBERS c")
    case True
    show ?thesis
      using Suc.hyps(1) [OF n refl, of "value @ [c]"] Suc.prems c d True
      by (subst numbers_loop.simps) (simp add: re_test_Some)
  next
    case False
    show ?thesis
      using Suc.prems c d False
      by (subst numbers_loop.simps) (simp add: re_test_Some)
  qed
qed

lemma letters_loop_diverges_aux:
  assumes "letters_loop input current char value = Some y"
  shows "\<not> (char = elem_at input current \<and> list_all LETTERS (drop current input))"
proof (rule letters_loop.raw_induct [OF _ assms])
  fix loop :: "string \<Rightarrow> nat \<Rightarrow> char option \<Rightarrow> string \<Rightarrow> (nat \<times> string) option"
  fix input current char "value" y
  assume IH: "\<And>input current char value y. loop input current char value = Some y \<Longrightarrow>
                \<not> (char = elem_at input current \<and> list_all LETTERS (drop current input))"
  assume step: "(if re_test LETTERS char
      then loop input (current + 1) (elem_at input (current + 1)) (value @ to_string char)
      else Some (current, value)) = Some y"
  show "\<not> (char = elem_at input current \<and> list_all LETTERS (drop current input))"
  proof
    assume inv: "char = elem_at input current \<and> list_all LETTERS (drop current input)"
    have t: "re_test LETTERS char"
    proof (cases "elem_at input current")
      case None
      with inv show ?thesis by (simp add: LETTERS_undefined)
    next
      case (Some c)
      with inv drop_elem_at [OF Some] show ?thesis by (simp add: re_test_Some)
    qed
    have next_inv: "list_all LETTERS (drop (current + 1) input)"
    proof (cases "elem_at input current")
      case None
      then have "drop current input = []" by (rule elem_at_None)
      then have "drop (current + 1) input = []" by simp
      then show ?thesis by simp
    next
      case (Some c)
      with inv drop_elem_at [OF Some] show ?thesis by simp
    qed
    from step t have "loop input (current + 1) (elem_at input (current + 1)) (value @ to_string char) = Some y"
      by simp
    from IH [OF this] next_inv show False by simp
  qed
qed

lemma letters_loop_diverges:
  "char = elem_at input current \<Longrightarrow> list_all LETTERS (drop current input) \<Longrightarrow>
   letters_loop input current char value = None"
  using letters_loop_diverges_aux by (cases "letters_loop input current char value") auto


lemma letters_loop_stops:
  "char = elem_at input current \<Longrightarrow> \<not> list_all LETTERS (drop current input) \<Longrightarrow>
   letters_loop input current char value =
     Some (current + length (takeWhile LETTERS (drop current input)),
           value @ takeWhile LETTERS (drop current input))"
proof (induction "length input - current" arbitrary: current char "value")
  case 0
  then have "drop current input = []" by simp
  with 0 show ?case by simp
next
  case (Suc n)
  from Suc.hyps(2) have "current < length input" by simp
  then obtain c where c: "elem_at input current = Some c"
    by (simp add: elem_at_def)
  have d: "drop current input = c # drop (Suc current) input"
    by (rule drop_elem_at [OF c])
  have n: "n = length input - (current + 1)" using Suc.hyps(2) by simp
  show ?case
  proof (cases "LETTERS c")
    case True
    with Suc.prems d have "\<not> list_all LETTERS (drop (current + 1) input)" by simp
    from Suc.hyps(1) [OF n refl this, of "value @ [c]"] Suc.prems c d True
    show ?thesis
      by (subst letters_loop.simps) (simp add: re_test_Some)
  next
    case False
    show ?thesis
      using Suc.prems c d False
      by (subst letters_loop.simps) (simp add: re_test_Some)
  qed
qed

lemma string_loop_finds:
  "char = elem_at input current \<Longrightarrow> CHR 0x22 \<in> set (drop current input) \<Longrightarrow>
   string_loop input current char value =
     Some (current + length (takeWhile not_quote (drop current input)),
           value @ takeWhile not_quote (drop current input))"
proof (induction "length input - current" arbitrary: current char "value")
  case 0
  then have "drop current input = []" by simp
  with 0 show ?case by simp
next
  case (Suc n)
  from Suc.hyps(2) have "current < length input" by simp
  then obtain c where c: "elem_at input current = Some c"
    by (simp add: elem_at_def)
  have d: "drop current input = c # drop (Suc current) input"
    by (rule drop_elem_at [OF c])
  have n: "n = length input - (current + 1)" using Suc.hyps(2) by simp
  show ?case
  proof (cases "c = CHR 0x22")
    case False
    with Suc.prems d have "CHR 0x22 \<in> set (drop (current + 1) input)" by auto
    from Suc.hyps(1) [OF n refl this, of "value @ [c]"] Suc.prems c d False
    show ?thesis
      by (subst string_loop.simps) (simp add: not_quote_def)
  next
    case True
    show ?thesis
      using Suc.prems c d True
      by (subst string_loop.simps) (simp add: not_quote_def)
  qed
qed

lemma string_loop_diverges_aux:
  assumes "string_loop input current char value = Some y"
  shows "\<not> (char = elem_at input current \<and> CHR 0x22 \<notin> set (drop current input))"
proof (rule string_loop.raw_induct [OF _ assms])
  fix loop :: "string \<Rightarrow> nat \<Rightarrow> char option \<Rightarrow> string \<Rightarrow> (nat \<times> string) option"
  fix input current char "value" y
  assume IH: "\<And>input current char value y. loop input current char value = Some y \<Longrightarrow>
                \<not> (char = elem_at input current \<and> CHR 0x22 \<notin> set (drop current input))"
  assume step: "(if char \<noteq> Some (CHR 0x22)
      then loop input (current + 1) (elem_at input (current + 1)) (value @ to_string char)
      else Some (current, value)) = Some y"
  show "\<not> (char = elem_at input current \<and> CHR 0x22 \<notin> set (drop current input))"
  proof
    assume inv: "char = elem_at input current \<and> CHR 0x22 \<notin> set (drop current input)"
    have t: "char \<noteq> Some (CHR 0x22)"
    proof (cases "elem_at input current")
      case None
      with inv show ?thesis by simp
    next
      case (Some c)
      with inv drop_elem_at [OF Some] show ?thesis by auto
    qed
    have next_inv: "CHR 0x22 \<notin> set (drop (current + 1) input)"
    proof (cases "elem_at input current")
      case None
      then have "drop current input = []" by (rule elem_at_None)
      then have "drop (current + 1) input = []" by simp
      then show ?thesis by simp
    next
      case (Some c)
      with inv drop_elem_at [OF Some] show ?thesis by simp
    qed
    from step t have "loop input (current + 1) (elem_at input (current + 1)) (value @ to_string char) = Some y"
      by simp
    from IH [OF this] next_inv show False by simp
  qed
qed

lemma string_loop_diverges:
  "char = elem_at input current \<Longrightarrow> CHR 0x22 \<notin> set (drop current input) \<Longrightarrow>
   string_loop input current char value = None"
  using string_loop_diverges_aux by (cases "string_loop input current char value") auto

lemmas loops_closed = numbers_loop_closed letters_loop_stops letters_loop_diverges
  string_loop_finds string_loop_diverges

lemma LETTERS_other:
  "LETTERS c \<Longrightarrow>
   c \<noteq> CHR ''('' \<and> c \<noteq> CHR '')'' \<and> \<not> WHITESPACE c \<and> \<not> NUMBERS c \<and> c \<noteq> CHR 0x22"
  by (auto simp: LETTERS_def WHITESPACE_def NUMBERS_def)

subsection \<open>Evaluation on a concrete input\<close>

text \<open>Facts that evaluate the stages on a concrete input; the inner loops of the tokenizer
  are evaluated by their closed forms.\<close>

lemmas scan_eval = tokenizer_def tokenizer_loop.simps loops_closed
  re_test_def elem_at_def LETTERS_def NUMBERS_def WHITESPACE_def not_quote_def Let_def

lemmas parser_eval =
  parser_def parser_loop.simps walk.simps walk_params.simps elem_at_def

lemmas transformer_eval =
  call_enter_def call_exit_def context_push_def Let_def

subsection \<open>The scenario of the test\<close>

text \<open>
  C1. On the input \<open>(add 2 (subtract 4 2))\<close> the tokenizer returns the nine tokens, the
  parser returns the program with the call \<open>add\<close>, the transformer returns the new program
  with one expression statement, and the compiler returns \<open>add(2, subtract(4, 2));\<close>.
  The transformer's result is shown with the tree \<open>ast\<close> as the call leaves it.
\<close>

theorem scenario_add_subtract:
  "tokenizer ''(add 2 (subtract 4 2))'' =
     Some (Inr [Token TokenType_paren ''('', Token TokenType_name ''add'',
                Token TokenType_number ''2'', Token TokenType_paren ''('',
                Token TokenType_name ''subtract'', Token TokenType_number ''4'',
                Token TokenType_number ''2'', Token TokenType_paren '')'',
                Token TokenType_paren '')''])
   \<and> parser [Token TokenType_paren ''('', Token TokenType_name ''add'',
              Token TokenType_number ''2'', Token TokenType_paren ''('',
              Token TokenType_name ''subtract'', Token TokenType_number ''4'',
              Token TokenType_number ''2'', Token TokenType_paren '')'',
              Token TokenType_paren '')'']
     = Inr (ProgramNode None
              [CallExpression None ''add''
                 [NumberLiteral None ''2'',
                  CallExpression None ''subtract''
                    [NumberLiteral None ''4'', NumberLiteral None ''2'']]])
   \<and> transformer (ProgramNode None
              [CallExpression None ''add''
                 [NumberLiteral None ''2'',
                  CallExpression None ''subtract''
                    [NumberLiteral None ''4'', NumberLiteral None ''2'']]])
     = Inr (ProgramNode (Some [])
              [CallExpression (Some [0]) ''add''
                 [NumberLiteral None ''2'',
                  CallExpression (Some [0, 1]) ''subtract''
                    [NumberLiteral None ''4'', NumberLiteral None ''2'']]],
            ProgramNode None
              [JsExpressionStatement None
                 (JsCallExpression None (Identifier None ''add'')
                    [NumberLiteral None ''2'',
                     JsCallExpression None (Identifier None ''subtract'')
                       [NumberLiteral None ''4'', NumberLiteral None ''2'']])])
   \<and> compiler ''(add 2 (subtract 4 2))'' = Some (Inr ''add(2, subtract(4, 2));'')"
proof (intro conjI)
  show "tokenizer ''(add 2 (subtract 4 2))'' =
     Some (Inr [Token TokenType_paren ''('', Token TokenType_name ''add'',
                Token TokenType_number ''2'', Token TokenType_paren ''('',
                Token TokenType_name ''subtract'', Token TokenType_number ''4'',
                Token TokenType_number ''2'', Token TokenType_paren '')'',
                Token TokenType_paren '')''])"
    by (simp add: scan_eval)
  show "parser [Token TokenType_paren ''('', Token TokenType_name ''add'',
              Token TokenType_number ''2'', Token TokenType_paren ''('',
              Token TokenType_name ''subtract'', Token TokenType_number ''4'',
              Token TokenType_number ''2'', Token TokenType_paren '')'',
              Token TokenType_paren '')'']
     = Inr (ProgramNode None
              [CallExpression None ''add''
                 [NumberLiteral None ''2'',
                  CallExpression None ''subtract''
                    [NumberLiteral None ''4'', NumberLiteral None ''2'']]])"
    by (simp add: parser_eval)
  show "transformer (ProgramNode None
              [CallExpression None ''add''
                 [NumberLiteral None ''2'',
                  CallExpression None ''subtract''
                    [NumberLiteral None ''4'', NumberLiteral None ''2'']]])
     = Inr (ProgramNode (Some [])
              [CallExpression (Some [0]) ''add''
                 [NumberLiteral None ''2'',
                  CallExpression (Some [0, 1]) ''subtract''
                    [NumberLiteral None ''4'', NumberLiteral None ''2'']]],
            ProgramNode None
              [JsExpressionStatement None
                 (JsCallExpression None (Identifier None ''add'')
                    [NumberLiteral None ''2'',
                     JsCallExpression None (Identifier None ''subtract'')
                       [NumberLiteral None ''4'', NumberLiteral None ''2'']])])"
    by (simp add: transformer_eval)
  show "compiler ''(add 2 (subtract 4 2))'' = Some (Inr ''add(2, subtract(4, 2));'')"
    by (simp add: compiler_def scan_eval parser_eval transformer_eval codeGenerator_def)
qed

subsection \<open>Code generation, rule by rule\<close>

lemma generateJsCode_render:
  "is_target node \<Longrightarrow> generateJsCode node = Inr (render node)"
  "all_target nodes \<Longrightarrow> generateJsCode_map nodes = Inr (map render nodes)"
proof (induction node and nodes rule: generateJsCode_generateJsCode_map.induct)
  case (5 c callee args)
  then show ?case by (cases callee) simp
qed simp_all

text \<open>
  C8. On every target node the generator returns the text the rules give, and on a
  program of target nodes it returns the texts of the body joined by a newline.
\<close>

theorem code_generation_rules:
  "(is_target node \<longrightarrow> generateJsCode node = Inr (render node)) \<and>
   Identifier_generateJsCode (Identifier c name) = Inr name \<and>
   (all_target body \<longrightarrow>
      codeGenerator (ProgramNode c' body) = Inr (join [CHR 0x0A] (map render body)))"
  by (simp add: generateJsCode_render codeGenerator_def)

theorem code_generation_rules_witness:
  "is_target (JsExpressionStatement None (JsCallExpression None (Identifier None ''add'')
       [NumberLiteral None ''2'', StringLiteral None ''x'']))
   \<and> generateJsCode (JsExpressionStatement None (JsCallExpression None (Identifier None ''add'')
       [NumberLiteral None ''2'', StringLiteral None ''x'']))
     = Inr (''add(2, '' @ [CHR 0x22] @ ''x'' @ [CHR 0x22] @ '');'')
   \<and> all_target [NumberLiteral None ''1'', JsExpressionStatement None
         (JsCallExpression None (Identifier None ''f'') [])]
   \<and> codeGenerator (ProgramNode None [NumberLiteral None ''1'', JsExpressionStatement None
         (JsCallExpression None (Identifier None ''f'') [])])
     = Inr (''1'' @ [CHR 0x0A] @ ''f();'')"
  using code_generation_rules
    [of "JsExpressionStatement None (JsCallExpression None (Identifier None ''add'')
           [NumberLiteral None ''2'', StringLiteral None ''x''])"
        None "''add''"
        "[NumberLiteral None ''1'', JsExpressionStatement None
           (JsCallExpression None (Identifier None ''f'') [])]"
        None]
  by simp


subsection \<open>Inputs on which the tokenizer does not return\<close>

text \<open>
  Once the scan is on a double quote it never returns: the loop of the string literal
  either runs beyond the end of the input, or stops on the next double quote, where the
  main loop starts the next literal, since the cursor is not moved past the closing quote.
\<close>

lemma takeWhile_length_bound:
  "m < length ys \<Longrightarrow> \<not> P (ys ! m) \<Longrightarrow> length (takeWhile P ys) \<le> m"
proof (rule ccontr)
  assume m: "m < length ys" and np: "\<not> P (ys ! m)" and "\<not> length (takeWhile P ys) \<le> m"
  then have l: "m < length (takeWhile P ys)" by simp
  then have "takeWhile P ys ! m = ys ! m" by (rule takeWhile_nth)
  moreover from l have "takeWhile P ys ! m \<in> set (takeWhile P ys)" by simp
  then have "P (takeWhile P ys ! m)" by (rule set_takeWhileD [THEN conjunct2])
  ultimately show False using np by simp
qed

lemma takeWhile_drop_bound:
  "i \<le> j \<Longrightarrow> j < length xs \<Longrightarrow> \<not> P (xs ! j) \<Longrightarrow> length (takeWhile P (drop i xs)) \<le> j - i"
  by (rule takeWhile_length_bound) simp_all

lemma takeWhile_drop_pos:
  "i < length xs \<Longrightarrow> P (xs ! i) \<Longrightarrow> 0 < length (takeWhile P (drop i xs))"
  by (simp add: Cons_nth_drop_Suc [symmetric])

lemma takeWhile_stops:
  assumes "x \<in> set ys" "\<not> P x"
  shows "length (takeWhile P ys) < length ys \<and> \<not> P (ys ! length (takeWhile P ys))"
proof -
  from assms have "takeWhile P ys \<noteq> ys" by (auto simp: takeWhile_eq_all_conv)
  moreover have "takeWhile P ys = take (length (takeWhile P ys)) ys" by (rule takeWhile_eq_take)
  ultimately have "length (takeWhile P ys) < length ys"
    by (metis linorder_not_less take_all)
  then show ?thesis by (simp add: nth_length_takeWhile)
qed

lemma quote_reached:
  "current < length input \<Longrightarrow> input ! current = CHR 0x22 \<Longrightarrow>
   tokenizer_loop input current tokens = None"
proof (induction "length input - current" arbitrary: current tokens rule: less_induct)
  case less
  let ?xs = "drop (current + 1) input"
  let ?k = "length (takeWhile not_quote ?xs)"
  show ?case
  proof (cases "CHR 0x22 \<in> set ?xs")
    case False
    then have "string_loop input (current + 1) (elem_at input (current + 1)) [] = None"
      by (intro string_loop_diverges) auto
    with less.prems show ?thesis
      by (subst tokenizer_loop.simps) (simp add: re_test_def WHITESPACE_def NUMBERS_def)
  next
    case True
    then have f: "string_loop input (current + 1) (elem_at input (current + 1)) [] =
                 Some (current + 1 + ?k, takeWhile not_quote ?xs)"
      using string_loop_finds [OF refl True, of "[]"] by simp
    from takeWhile_stops [OF True, of not_quote]
    have k: "?k < length ?xs" and q: "\<not> not_quote (?xs ! ?k)" by (simp_all add: not_quote_def)
    from k have j: "current + 1 + ?k < length input" by simp
    from q k have jq: "input ! (current + 1 + ?k) = CHR 0x22"
      by (simp add: not_quote_def add.commute add.left_commute)
    have "length input - (current + 1 + ?k) < length input - current" using j by simp
    from less.hyps [OF this j jq]
    have "\<And>tokens. tokenizer_loop input (current + 1 + ?k) tokens = None" .
    with less.prems f show ?thesis
      by (subst tokenizer_loop.simps) (simp add: re_test_def WHITESPACE_def NUMBERS_def)
  qed
qed

lemma scan_reaches_quote:
  "list_all scannable pre \<Longrightarrow> current \<le> length pre \<Longrightarrow>
   tokenizer_loop (pre @ CHR 0x22 # s) current tokens = None"
proof (induction "length pre - current" arbitrary: current tokens rule: less_induct)
  case less
  let ?input = "pre @ CHR 0x22 # s"
  have q: "?input ! length pre = CHR 0x22" by simp
  have lq: "length pre < length ?input" by simp
  show ?case
  proof (cases "?input ! current = CHR 0x22")
    case True
    with less.prems lq show ?thesis by (intro quote_reached) auto
  next
    case False
    with less.prems q have lt: "current < length pre" by (cases "current = length pre") auto
    let ?c = "?input ! current"
    from lt have cpre: "?c = pre ! current" by (simp add: nth_append)
    with less.prems lt have sc: "scannable ?c" by (simp add: list_all_length)
    have lti: "current < length ?input" using lt by simp
    have step: "\<And>c' tokens. current < c' \<Longrightarrow> c' \<le> length pre \<Longrightarrow>
                  tokenizer_loop ?input c' tokens = None"
      using less.hyps less.prems(1) lt by (metis diff_less_mono2)
    show ?thesis
    proof (cases "?c = CHR ''('' \<or> ?c = CHR '')''")
      case True
      with lti step [of "current + 1"] lt show ?thesis
        by (subst tokenizer_loop.simps) (simp add: Let_def)
    next
      case np: False
      show ?thesis
      proof (cases "WHITESPACE ?c")
        case True
        with np lti step [of "current + 1"] lt show ?thesis
          by (subst tokenizer_loop.simps) (simp add: Let_def re_test_Some)
      next
        case nw: False
        show ?thesis
        proof (cases "NUMBERS ?c")
          case True
          let ?k = "length (takeWhile NUMBERS (drop current ?input))"
          have "\<not> NUMBERS (?input ! length pre)" by (simp add: NUMBERS_def)
          then have kb: "?k \<le> length pre - current"
            using less.prems(2) lq
            by (intro takeWhile_drop_bound [where P = NUMBERS and xs = "?input"])
          have kp: "0 < ?k"
            using lti True by (intro takeWhile_drop_pos [where P = NUMBERS and xs = "?input"])
          have e: "Some ?c = elem_at ?input current" using lti by (simp add: elem_at_def)
          have "tokenizer_loop ?input (current + ?k) (tokens @ [Token TokenType_number (takeWhile NUMBERS (drop current ?input))]) = None"
            using step [of "current + ?k"] kb kp lt by simp
          with np nw True lti numbers_loop_closed [OF e, of "[]"] show ?thesis
            by (subst tokenizer_loop.simps) (simp add: Let_def re_test_Some)
        next
          case nn: False
          with sc np nw have l: "LETTERS ?c" by (simp add: scannable_def)
          let ?k = "length (takeWhile LETTERS (drop current ?input))"
          have nl: "\<not> LETTERS (?input ! length pre)" by (simp add: LETTERS_def)
          have kb: "?k \<le> length pre - current"
            using less.prems(2) lq nl
            by (intro takeWhile_drop_bound [where P = LETTERS and xs = "?input"])
          have kp: "0 < ?k"
            using lti l by (intro takeWhile_drop_pos [where P = LETTERS and xs = "?input"])
          have e: "Some ?c = elem_at ?input current" using lti by (simp add: elem_at_def)
          have "drop current ?input ! (length pre - current) \<in> set (drop current ?input)"
            using less.prems(2) by (intro nth_mem) simp
          then have "?input ! length pre \<in> set (drop current ?input)"
            using less.prems(2) by simp
          with nl have na: "\<not> list_all LETTERS (drop current ?input)"
            by (auto simp: list_all_iff)
          have "tokenizer_loop ?input (current + ?k) (tokens @ [Token TokenType_name (takeWhile LETTERS (drop current ?input))]) = None"
            using step [of "current + ?k"] kb kp lt by simp
          with np nw nn l False lti letters_loop_stops [OF e na, of "[]"] show ?thesis
            by (subst tokenizer_loop.simps) (simp add: Let_def re_test_Some)
        qed
      qed
    qed
  qed
qed

text \<open>A scan that ends inside a run of letters never returns either.\<close>

lemma scan_ends_in_letters:
  "list_all scannable input \<Longrightarrow> input \<noteq> [] \<Longrightarrow> LETTERS (last input) \<Longrightarrow>
   current < length input \<Longrightarrow> tokenizer_loop input current tokens = None"
proof (induction "length input - current" arbitrary: current tokens rule: less_induct)
  case less
  let ?c = "input ! current"
  let ?e = "length input - 1"
  from less.prems have sc: "scannable ?c" by (simp add: list_all_length)
  from less.prems have le: "LETTERS (input ! ?e)" by (simp add: last_conv_nth)
  from less.prems have e: "?e < length input" "current \<le> ?e" by simp_all
  have cur: "Some ?c = elem_at input current" using less.prems by (simp add: elem_at_def)
  have step: "\<And>c' tokens. current < c' \<Longrightarrow> c' < length input \<Longrightarrow>
                tokenizer_loop input c' tokens = None"
    using less.hyps less.prems(1,2,3) by (metis diff_less_mono2 less.prems(4))
  have next_ok: "\<not> LETTERS ?c \<Longrightarrow> current + 1 < length input"
    using le e by (cases "current = ?e") auto
  show ?case
  proof (cases "?c = CHR ''('' \<or> ?c = CHR '')''")
    case True
    then have "\<not> LETTERS ?c" using LETTERS_other by blast
    with True less.prems step [of "current + 1"] next_ok show ?thesis
      by (subst tokenizer_loop.simps) (simp add: Let_def)
  next
    case np: False
    show ?thesis
    proof (cases "WHITESPACE ?c")
      case True
      then have "\<not> LETTERS ?c" using LETTERS_other by blast
      with True np less.prems step [of "current + 1"] next_ok show ?thesis
        by (subst tokenizer_loop.simps) (simp add: Let_def re_test_Some)
    next
      case nw: False
      show ?thesis
      proof (cases "NUMBERS ?c")
        case True
        let ?k = "length (takeWhile NUMBERS (drop current input))"
        have "\<not> NUMBERS (input ! ?e)" using le LETTERS_other by blast
        then have kb: "?k \<le> ?e - current"
          using e by (intro takeWhile_drop_bound [where P = NUMBERS and xs = input])
        have kp: "0 < ?k"
          using less.prems(4) True by (intro takeWhile_drop_pos [where P = NUMBERS and xs = input])
        have "tokenizer_loop input (current + ?k)
                (tokens @ [Token TokenType_number (takeWhile NUMBERS (drop current input))]) = None"
          using step [of "current + ?k"] kb kp e by simp
        with np nw True less.prems numbers_loop_closed [OF cur, of "[]"] show ?thesis
          by (subst tokenizer_loop.simps) (simp add: Let_def re_test_Some)
      next
        case nn: False
        with sc np nw have l: "LETTERS ?c" by (simp add: scannable_def)
        then have nq: "?c \<noteq> CHR 0x22" using LETTERS_other by blast
        show ?thesis
        proof (cases "list_all LETTERS (drop current input)")
          case True
          from letters_loop_diverges [OF cur True, of "[]"] np nw nn nq l less.prems show ?thesis
            by (subst tokenizer_loop.simps) (simp add: Let_def re_test_Some)
        next
          case False
          let ?k = "length (takeWhile LETTERS (drop current input))"
          from False obtain x where x: "x \<in> set (drop current input)" "\<not> LETTERS x"
            by (auto simp: list_all_iff)
          have "?k < length (drop current input)"
            using takeWhile_stops [where P = LETTERS and x = x and ys = "drop current input"] x
            by simp
          then have kb: "current + ?k < length input" by simp
          have kp: "0 < ?k"
            using less.prems(4) l by (intro takeWhile_drop_pos [where P = LETTERS and xs = input])
          have "tokenizer_loop input (current + ?k)
                  (tokens @ [Token TokenType_name (takeWhile LETTERS (drop current input))]) = None"
            using step [of "current + ?k"] kb kp by simp
          with np nw nn nq l less.prems letters_loop_stops [OF cur False, of "[]"] show ?thesis
            by (subst tokenizer_loop.simps) (simp add: Let_def re_test_Some)
        qed
      qed
    qed
  qed
qed

text \<open>
  C7. The specification asks that the tokenizer terminates on every input, also when the
  input ends inside a run of letters. On an input of parentheses, whitespace, digits and
  letters whose last character is a letter, such as \<open>(add 2 x\<close>, the loop of the letters
  never stops and the tokenizer does not return.
\<close>

theorem tokenizer_diverges_on_letters:
  "list_all scannable input \<Longrightarrow> input \<noteq> [] \<Longrightarrow> LETTERS (last input) \<Longrightarrow>
   tokenizer input = None"
  by (simp add: tokenizer_def scan_ends_in_letters)

theorem tokenizer_diverges_on_letters_witness:
  "list_all scannable ''(add 2 x'' \<and> ''(add 2 x'' \<noteq> [] \<and> LETTERS (last ''(add 2 x'') \<and>
   tokenizer ''(add 2 x'' = None"
  using tokenizer_diverges_on_letters [of "''(add 2 x''"]
  by (simp add: scannable_def WHITESPACE_def NUMBERS_def LETTERS_def)

text \<open>
  C4. The specification asks for an error when the input ends inside a string literal.
  On an input of parentheses, whitespace, digits and letters, then a double quote, then
  text with no double quote, the loop of the string literal never stops: the tokenizer
  neither fails nor returns.
\<close>

theorem tokenizer_diverges_on_unterminated_string:
  "list_all scannable pre \<Longrightarrow> CHR 0x22 \<notin> set s \<Longrightarrow>
   tokenizer (pre @ CHR 0x22 # s) = None"
  by (simp add: tokenizer_def scan_reaches_quote)

theorem tokenizer_diverges_on_unterminated_string_witness:
  "list_all scannable ''(concat '' \<and> CHR 0x22 \<notin> set ''foo'' \<and>
   tokenizer (''(concat '' @ CHR 0x22 # ''foo'') = None"
  using tokenizer_diverges_on_unterminated_string [of "''(concat ''" "''foo''"]
  by (simp add: scannable_def WHITESPACE_def NUMBERS_def LETTERS_def)

text \<open>
  C2. The specification asks that the compiler terminates on well-formed calls over
  numbers and quoted strings. After the loop of a string literal the source does not move
  the cursor past the closing quote (the comment \<open>Skip the closing double quote\<close> stands
  where the step is missing), so the closing quote opens a second literal, and the last
  one runs beyond the end of the input: the compiler does not return on any input in
  which the scan reaches a double quote, terminated or not. An instance is the input
  \<open>(add "x" 1)\<close>, with the double quote written as the code unit \<open>0x22\<close>.
\<close>

theorem compiler_diverges_on_string_literal:
  "list_all scannable pre \<Longrightarrow> compiler (pre @ CHR 0x22 # s) = None"
  by (simp add: compiler_def tokenizer_def scan_reaches_quote)

theorem compiler_diverges_on_string_literal_witness:
  "list_all scannable ''(add '' \<and>
   compiler (''(add '' @ CHR 0x22 # ''x'' @ [CHR 0x22] @ '' 1)'') = None"
  using compiler_diverges_on_string_literal [of "''(add ''" "''x'' @ [CHR 0x22] @ '' 1)''"]
  by (simp add: scannable_def WHITESPACE_def NUMBERS_def LETTERS_def)

subsection \<open>The transformer on source programs\<close>

text \<open>
  References into the new tree: a \<open>push\<close> through a reference replaces the array it
  denotes by the array with one more element, and the \<open>args\<close> of an element of an array
  are reached by the reference of the array followed by the index of the element.
\<close>

lemma args_of_with_args: "args_of n = Some a \<Longrightarrow> args_of (with_args n b) = Some b"
  by (induction n b rule: with_args.induct) auto

lemma with_args_with_args: "args_of n = Some a \<Longrightarrow> with_args (with_args n b) c = with_args n c"
  by (induction n b rule: with_args.induct) auto

lemma push_at_put_at:
  "array_at r body = Some arr \<Longrightarrow> push_at r x body = Some (put_at r (arr @ [x]) body)"
  by (induction r arbitrary: body) (auto split: if_splits option.splits)

lemma array_at_put_at:
  "array_at r body = Some arr \<Longrightarrow> array_at r (put_at r new body) = Some new"
  by (induction r arbitrary: body) (auto split: if_splits option.splits simp: args_of_with_args)

lemma put_at_put_at:
  "array_at r body = Some arr \<Longrightarrow> put_at r new2 (put_at r new1 body) = put_at r new2 body"
  by (induction r arbitrary: body) (auto split: if_splits option.splits simp: args_of_with_args with_args_with_args)

lemma with_args_same: "args_of n = Some a \<Longrightarrow> with_args n a = n"
  by (induction n a rule: with_args.induct) auto

lemma put_at_same: "array_at r body = Some arr \<Longrightarrow> put_at r arr body = body"
  by (induction r arbitrary: body) (auto split: if_splits option.splits simp: with_args_same)

lemma array_at_snoc:
  "array_at r body = Some arr \<Longrightarrow> i < length arr \<Longrightarrow> args_of (arr ! i) = Some a \<Longrightarrow>
   array_at (r @ [i]) body = Some a"
  by (induction r arbitrary: body) (auto split: if_splits option.splits)

lemma put_at_snoc:
  "array_at r body = Some arr \<Longrightarrow> i < length arr \<Longrightarrow> args_of (arr ! i) = Some a \<Longrightarrow>
   put_at (r @ [i]) new body = put_at r (arr[i := with_args (arr ! i) new]) body"
  by (induction r arbitrary: body) (auto split: if_splits option.splits)


text \<open>The traversal of source nodes appends their counterparts, in order, to the array
  of the parent.\<close>

lemma traverse_transformer_aux:
  "visitor = transformer_visitor \<Longrightarrow> is_source node \<Longrightarrow> parent = Some p \<Longrightarrow>
   Node_context p = Some r \<Longrightarrow> array_at r body = Some arr \<Longrightarrow>
     traverseNode visitor node parent body =
       Inr (visited r (length arr) node, put_at r (arr @ [new_element (Node_type p) node]) body)"
  "visitor = transformer_visitor \<Longrightarrow> all_source nodes \<Longrightarrow>
   Node_context q = Some r \<Longrightarrow> array_at r body = Some arr \<Longrightarrow>
     traverseArray visitor nodes q body =
       Inr (visited_list r (length arr) nodes, put_at r (arr @ map (new_element (Node_type q)) nodes) body)"
proof (induction visitor node parent body and visitor nodes q body
       arbitrary: p r arr and r arr rule: traverseNode_traverseArray.induct)
  case (1 visitor c "value" parent s)
  then show ?case
    by (simp add: call_enter_def call_exit_def context_push_def push_at_put_at)
next
  case (2 visitor c "value" parent s)
  then show ?case
    by (simp add: call_enter_def call_exit_def context_push_def push_at_put_at)
next
  case (3 visitor c name params parent s)
  let ?k = "length arr"
  let ?e0 = "JsCallExpression None (Identifier None name) []"
  let ?w = "\<lambda>e. if Node_type p \<noteq> ASTNodeType_CallExpression then JsExpressionStatement None e else e"
  let ?s1 = "put_at r (arr @ [?w ?e0]) s"
  have v: "visitor = transformer_visitor" using "3.prems" by simp
  have enter: "call_enter (transformer_visitor ASTNodeType_CallExpression)
                 (ASTObject (CallExpression c name params)) parent s = Inr (Some (r @ [?k]), ?s1)"
    using "3.prems" by (simp add: call_enter_def context_push_def push_at_put_at)
  have a1: "array_at r ?s1 = Some (arr @ [?w ?e0])"
    using "3.prems" by (simp add: array_at_put_at)
  have a2: "array_at (r @ [?k]) ?s1 = Some []"
    by (rule array_at_snoc [OF a1]) auto
  have src: "all_source params" using "3.prems" by simp
  have ih: "traverseArray transformer_visitor params (ASTObject (CallExpression (Some (r @ [?k])) name params)) ?s1 =
       Inr (visited_list (r @ [?k]) 0 params,
            put_at (r @ [?k]) ([] @ map (new_element ASTNodeType_CallExpression) params) ?s1)"
    using "3.IH" [OF refl enter [folded v] refl v src _ a2] by (simp add: v)
  have m: "map (new_element ASTNodeType_CallExpression) params = map new_expression params"
    by (rule map_cong [OF refl]) (case_tac x; simp)
  have "put_at (r @ [?k]) (map new_expression params) ?s1 =
        put_at r ((arr @ [?w ?e0])[?k := with_args ((arr @ [?w ?e0]) ! ?k) (map new_expression params)]) ?s1"
    by (rule put_at_snoc [OF a1]) auto
  also have "\<dots> = put_at r (arr @ [new_element (Node_type p) (CallExpression c name params)]) ?s1"
    by simp
  also have "\<dots> = put_at r (arr @ [new_element (Node_type p) (CallExpression c name params)]) s"
    using "3.prems" by (simp add: put_at_put_at)
  finally show ?case
    using enter ih m by (simp add: call_exit_def v)
next
  case (4 visitor c expression parent s)
  then show ?case by simp
next
  case (5 visitor c callee args parent s)
  then show ?case by simp
next
  case (6 visitor parent s)
  then show ?case by (simp add: put_at_same)
next
  case (7 visitor node nodes parent s)
  let ?t = "Node_type parent"
  have v: "visitor = transformer_visitor" using "7.prems" by simp
  have h: "traverseNode transformer_visitor node (Some parent) s =
        Inr (visited r (length arr) node, put_at r (arr @ [new_element ?t node]) s)"
    using "7.IH"(1) [OF v _ refl] "7.prems" by (simp add: v)
  let ?s1 = "put_at r (arr @ [new_element ?t node]) s"
  have a1: "array_at r ?s1 = Some (arr @ [new_element ?t node])"
    using "7.prems" by (simp add: array_at_put_at)
  have "traverseArray transformer_visitor nodes parent ?s1 =
        Inr (visited_list r (length (arr @ [new_element ?t node])) nodes,
             put_at r ((arr @ [new_element ?t node]) @ map (new_element ?t) nodes) ?s1)"
    using "7.IH"(2) [OF h [folded v] refl v _ _ a1] "7.prems" by (simp add: v)
  moreover have "put_at r ((arr @ [new_element ?t node]) @ map (new_element ?t) nodes) ?s1 =
        put_at r (arr @ map (new_element ?t) (node # nodes)) s"
    using "7.prems" by (simp add: put_at_put_at)
  ultimately show ?case using h by (simp add: v)
qed


lemma transformer_source:
  "all_source body \<Longrightarrow>
   transformer (ProgramNode c body) =
     Inr (ProgramNode (Some []) (visited_list [] 0 body),
          ProgramNode None (map (new_element ASTNodeType_Program) body))"
  using traverse_transformer_aux(2)
    [OF refl, of body "ProgramObject (ProgramNode (Some []) body)" "[]" "[]" "[]"]
  by (simp add: call_enter_def call_exit_def)

lemma all_source_append: "all_source (xs @ ys) = (all_source xs \<and> all_source ys)"
  by (induction xs) auto

lemma walk_source:
  "walk tokens current = Inr (node, c') \<Longrightarrow> is_source node"
  "walk_params tokens current params = Inr (ps, c') \<Longrightarrow> all_source params \<Longrightarrow> all_source ps"
proof (induction tokens current and tokens current params arbitrary: node c' and ps c'
       rule: walk_walk_params.induct)
  case (1 tokens current)
  from "1.prems" show ?case
    apply (simp only: walk.simps [of tokens current])
    apply (simp split: option.splits if_splits sum.splits prod.splits)
    using "1.IH" apply fastforce+
    done
next
  case (2 tokens current params)
  show ?case
  proof (cases "elem_at tokens current")
    case None
    with "2.prems" show ?thesis by (simp add: walk_params.simps [of tokens current])
  next
    case (Some token)
    show ?thesis
    proof (cases "token_type token \<noteq> TokenType_paren \<or>
             (token_type token = TokenType_paren \<and> token_value token \<noteq> '')'')")
      case False
      with Some "2.prems" show ?thesis by (simp add: walk_params.simps [of tokens current])
    next
      case True
      with Some "2.prems" obtain node y where
        w: "walk tokens current = Inr (node, y)" and
        r: "walk_params tokens y (params @ [node]) = Inr (ps, c')"
        by (auto simp: walk_params.simps [of tokens current] split: sum.splits)
      from "2.IH"(1)[OF Some True w] have "is_source node" .
      with "2.prems" have "all_source (params @ [node])" by (simp add: all_source_append)
      from "2.IH"(2)[OF Some True w refl r this] show ?thesis .
    qed
  qed
qed

lemma parser_loop_source:
  "parser_loop tokens current body = Inr body' \<Longrightarrow> all_source body \<Longrightarrow> all_source body'"
proof (induction tokens current body rule: parser_loop.induct)
  case (1 tokens current body)
  show ?case
  proof (cases "current < length tokens")
    case False
    with "1.prems" show ?thesis by (simp add: parser_loop.simps [of tokens current])
  next
    case True
    with "1.prems" obtain node y where
      w: "walk tokens current = Inr (node, y)" and
      r: "parser_loop tokens y (body @ [node]) = Inr body'"
      by (auto simp: parser_loop.simps [of tokens current] split: sum.splits)
    from walk_source(1) [OF w] "1.prems" have "all_source (body @ [node])"
      by (simp add: all_source_append)
    from "1.IH" [OF True w refl r this] show ?thesis .
  qed
qed

lemma parser_source:
  "parser tokens = Inr ast \<Longrightarrow> \<exists>body. ast = ProgramNode None body \<and> all_source body"
  by (auto simp: parser_def split: sum.splits dest: parser_loop_source)

subsection \<open>Top-level expressions and statements\<close>

lemma new_expression_target:
  "is_source node \<Longrightarrow> is_target (new_expression node) \<and> render (new_expression node) = expression_text node"
  "all_source nodes \<Longrightarrow> all_target (map new_expression nodes) \<and>
     map render (map new_expression nodes) = map expression_text nodes"
  by (induction node and nodes rule: is_source_all_source.induct)
     (simp_all del: map_map map_eq_conv)

lemma new_element_target:
  "all_source nodes \<Longrightarrow> all_target (map (new_element ASTNodeType_Program) nodes) \<and>
     map render (map (new_element ASTNodeType_Program) nodes) = map statement_text nodes"
proof (induction nodes)
  case Nil
  then show ?case by simp
next
  case (Cons node nodes)
  then show ?case
    using new_expression_target(1) [of node]
    by (cases node) (simp_all del: map_map map_eq_conv)
qed

text \<open>
  C3, as stated, fails: the top-level literal \<open>2\<close> is compiled to the text \<open>2\<close>, with no
  semicolon, and the new tree holds the bare literal, not a statement. Only the callback of
  \<open>CallExpression\<close> wraps its node in a statement.
\<close>

theorem top_level_literal_not_terminated:
  "compiler ''2'' = Some (Inr ''2'') \<and>
   transformer (ProgramNode None [NumberLiteral None ''2'']) =
     Inr (ProgramNode (Some []) [NumberLiteral None ''2''], ProgramNode None [NumberLiteral None ''2''])"
  by (simp add: compiler_def scan_eval parser_eval transformer_eval codeGenerator_def)

text \<open>
  C3, amended. For every input the pipeline accepts, the output is the texts of the
  top-level expressions of the parsed program, in order, joined by newlines: a top-level
  call is its text followed by one semicolon, a top-level literal is its bare text, and
  a call inside a call has no semicolon.
\<close>

theorem top_level_statements:
  assumes "compiler input = Some (Inr output)"
  shows "\<exists>tokens body. tokenizer input = Some (Inr tokens) \<and>
           parser tokens = Inr (ProgramNode None body) \<and>
           output = join [CHR 0x0A] (map statement_text body)"
proof -
  from assms obtain tokens where t: "tokenizer input = Some (Inr tokens)"
    by (auto simp: compiler_def split: option.splits sum.splits)
  with assms obtain ast where p: "parser tokens = Inr ast"
    by (auto simp: compiler_def split: option.splits sum.splits)
  from parser_source [OF p] obtain body where
    b: "ast = ProgramNode None body" and s: "all_source body" by blast
  from transformer_source [OF s] new_element_target [OF s]
  have "codeGenerator (ProgramNode None (map (new_element ASTNodeType_Program) body)) =
          Inr (join [CHR 0x0A] (map statement_text body))"
    by (simp add: codeGenerator_def generateJsCode_render(2) del: map_map map_eq_conv transformer.simps)
  with assms t p b transformer_source [OF s, of None]
  have "output = join [CHR 0x0A] (map statement_text body)"
    by (simp add: compiler_def del: transformer.simps)
  with t p b show ?thesis by blast
qed

theorem top_level_statements_witness:
  "compiler ''7 (foo 1 (bar))'' = Some (Inr (''7'' @ [CHR 0x0A] @ ''foo(1, bar());'')) \<and>
   (\<exists>tokens body. tokenizer ''7 (foo 1 (bar))'' = Some (Inr tokens) \<and>
           parser tokens = Inr (ProgramNode None body) \<and>
           ''7'' @ [CHR 0x0A] @ ''foo(1, bar());'' = join [CHR 0x0A] (map statement_text body))"
proof -
  have h: "compiler ''7 (foo 1 (bar))'' = Some (Inr (''7'' @ [CHR 0x0A] @ ''foo(1, bar());''))"
    by (simp add: compiler_def scan_eval parser_eval transformer_eval codeGenerator_def)
  from top_level_statements [OF h] h show ?thesis by simp
qed

subsection \<open>What the transformer writes to the source tree\<close>

lemma visited_shape:
  "shape (visited r k node) = shape node"
  "map shape (visited_list r k nodes) = map shape nodes"
  by (induction r k node and r k nodes rule: visited_visited_list.induct) auto

lemma visited_slots:
  "slots_attached (visited r k node)"
  "list_all slots_attached (visited_list r k nodes)"
  by (induction r k node and r k nodes rule: visited_visited_list.induct) auto

lemma visited_literal_slots:
  "literal_slots (visited r k node) = literal_slots node"
  "map literal_slots (visited_list r k nodes) = map literal_slots nodes"
  by (induction r k node and r k nodes rule: visited_visited_list.induct) auto

text \<open>
  C9, as stated, fails: the reference stored in \<open>_context\<close> is not discarded. After the
  call the program node still refers to the body of the new tree and the call \<open>foo\<close> to
  the \<open>args\<close> of its counterpart.
\<close>

theorem output_slot_not_discarded:
  "transformer (ProgramNode None [CallExpression None ''foo'' [NumberLiteral None ''1'']]) =
     Inr (ProgramNode (Some []) [CallExpression (Some [0]) ''foo'' [NumberLiteral None ''1'']],
          ProgramNode None [JsExpressionStatement None
             (JsCallExpression None (Identifier None ''foo'') [NumberLiteral None ''1''])])"
  by (simp add: transformer_eval)

text \<open>
  C9, amended. For every source program the transformer leaves the type, the name or
  value and the children of every source node as they were; it writes the \<open>_context\<close> of
  the program node and of every \<open>CallExpression\<close>, which are still attached when the call
  has returned, and it does not write the \<open>_context\<close> of a literal.
\<close>

theorem transformer_frame:
  assumes "all_source body"
  shows "\<exists>body1 newAst.
           transformer (ProgramNode c body) = Inr (ProgramNode (Some []) body1, newAst) \<and>
           map shape body1 = map shape body \<and>
           map literal_slots body1 = map literal_slots body \<and>
           list_all slots_attached body1"
  using transformer_source [OF assms, of c]
  by (simp add: visited_shape visited_slots visited_literal_slots)


theorem transformer_frame_witness:
  "all_source [CallExpression None ''foo'' [NumberLiteral None ''1'']] \<and>
   (\<exists>body1 newAst.
       transformer (ProgramNode None [CallExpression None ''foo'' [NumberLiteral None ''1'']])
         = Inr (ProgramNode (Some []) body1, newAst) \<and>
       map shape body1 = map shape [CallExpression None ''foo'' [NumberLiteral None ''1'']] \<and>
       map literal_slots body1 =
         map literal_slots [CallExpression None ''foo'' [NumberLiteral None ''1'']] \<and>
       list_all slots_attached body1)"
proof -
  have h: "all_source [CallExpression None ''foo'' [NumberLiteral None ''1'']]" by simp
  from transformer_frame [OF h, of None] h show ?thesis by blast
qed

subsection \<open>Determinism\<close>

text \<open>
  The traversal in a world: the counterparts of the source nodes are appended to the array
  of the parent in the tree the reference of the parent names, and no other tree of the
  world changes. The text of the compiler in a world is the text of the compiler above.
\<close>

lemma visited_source:
  "is_source (visited r k node) = is_source node"
  "all_source (visited_list r k nodes) = all_source nodes"
  by (induction r k node and r k nodes rule: visited_visited_list.induct) auto

lemma new_expression_visited:
  "new_expression (visited r k node) = new_expression node"
  "map new_expression (visited_list r k nodes) = map new_expression nodes"
  by (induction r k node and r k nodes rule: visited_visited_list.induct) auto

lemma new_element_visited:
  "map (new_element t) (visited_list r k nodes) = map (new_element t) nodes"
proof (induction nodes arbitrary: k)
  case Nil
  then show ?case by simp
next
  case (Cons node nodes)
  then show ?case using new_expression_visited by (cases node) auto
qed

lemma traverse_in_aux:
  "visitor = transformer_visitor_in \<Longrightarrow> is_source node \<Longrightarrow> parent = Some p \<Longrightarrow>
   Node_context p = Some (t # r) \<Longrightarrow> t < length w \<Longrightarrow> array_at r (w ! t) = Some arr \<Longrightarrow>
     traverseNode visitor node parent w =
       Inr (visited (t # r) (length arr) node,
            w[t := put_at r (arr @ [new_element (Node_type p) node]) (w ! t)])"
  "visitor = transformer_visitor_in \<Longrightarrow> all_source nodes \<Longrightarrow>
   Node_context q = Some (t # r) \<Longrightarrow> t < length w \<Longrightarrow> array_at r (w ! t) = Some arr \<Longrightarrow>
     traverseArray visitor nodes q w =
       Inr (visited_list (t # r) (length arr) nodes,
            w[t := put_at r (arr @ map (new_element (Node_type q)) nodes) (w ! t)])"
proof (induction visitor node parent w and visitor nodes q w
       arbitrary: p r arr and r arr rule: traverseNode_traverseArray.induct)
  case (1 visitor c "value" parent s)
  then show ?case
    by (simp add: call_enter_def call_exit_def context_push_in_def world_push_at_def push_at_put_at)
next
  case (2 visitor c "value" parent s)
  then show ?case
    by (simp add: call_enter_def call_exit_def context_push_in_def world_push_at_def push_at_put_at)
next
  case (3 visitor c name params parent s)
  let ?k = "length arr"
  let ?e0 = "JsCallExpression None (Identifier None name) []"
  let ?w = "\<lambda>e. if Node_type p \<noteq> ASTNodeType_CallExpression then JsExpressionStatement None e else e"
  let ?b1 = "put_at r (arr @ [?w ?e0]) (s ! t)"
  let ?s1 = "s[t := ?b1]"
  have v: "visitor = transformer_visitor_in" using "3.prems" by simp
  have enter: "call_enter (transformer_visitor_in ASTNodeType_CallExpression)
                 (ASTObject (CallExpression c name params)) parent s = Inr (Some ((t # r) @ [?k]), ?s1)"
    using "3.prems"
    by (simp add: call_enter_def context_push_in_def world_push_at_def world_array_at_def push_at_put_at)
  have t1: "t < length ?s1" using "3.prems" by simp
  have n1: "?s1 ! t = ?b1" using "3.prems" by simp
  have a1: "array_at r ?b1 = Some (arr @ [?w ?e0])"
    using "3.prems" by (simp add: array_at_put_at)
  have a2: "array_at (r @ [?k]) (?s1 ! t) = Some []"
    unfolding n1 by (rule array_at_snoc [OF a1]) auto
  have src: "all_source params" using "3.prems" by simp
  have ih: "traverseArray transformer_visitor_in params
              (ASTObject (CallExpression (Some ((t # r) @ [?k])) name params)) ?s1 =
       Inr (visited_list (t # r @ [?k]) 0 params,
            ?s1[t := put_at (r @ [?k]) ([] @ map (new_element ASTNodeType_CallExpression) params) (?s1 ! t)])"
    using "3.IH" [OF refl enter [folded v] refl v src _ t1 a2] by (simp add: v)
  have m: "map (new_element ASTNodeType_CallExpression) params = map new_expression params"
    by (rule map_cong [OF refl]) (case_tac x; simp)
  have "put_at (r @ [?k]) (map new_expression params) ?b1 =
        put_at r ((arr @ [?w ?e0])[?k := with_args ((arr @ [?w ?e0]) ! ?k) (map new_expression params)]) ?b1"
    by (rule put_at_snoc [OF a1]) auto
  also have "\<dots> = put_at r (arr @ [new_element (Node_type p) (CallExpression c name params)]) ?b1"
    by simp
  also have "\<dots> = put_at r (arr @ [new_element (Node_type p) (CallExpression c name params)]) (s ! t)"
    using "3.prems" by (simp add: put_at_put_at)
  finally show ?case
    using enter ih m n1 by (simp add: call_exit_def v)
next
  case (4 visitor c expression parent s)
  then show ?case by simp
next
  case (5 visitor c callee args parent s)
  then show ?case by simp
next
  case (6 visitor parent s)
  then show ?case by (simp add: put_at_same)
next
  case (7 visitor node nodes parent s)
  let ?t = "Node_type parent"
  have v: "visitor = transformer_visitor_in" using "7.prems" by simp
  let ?b1 = "put_at r (arr @ [new_element ?t node]) (s ! t)"
  let ?s1 = "s[t := ?b1]"
  have h: "traverseNode transformer_visitor_in node (Some parent) s =
        Inr (visited (t # r) (length arr) node, ?s1)"
    using "7.IH"(1) [OF v _ refl] "7.prems" by (simp add: v)
  have t1: "t < length ?s1" using "7.prems" by simp
  have n1: "?s1 ! t = ?b1" using "7.prems" by simp
  have a1: "array_at r (?s1 ! t) = Some (arr @ [new_element ?t node])"
    unfolding n1 using "7.prems" by (simp add: array_at_put_at)
  have "traverseArray transformer_visitor_in nodes parent ?s1 =
        Inr (visited_list (t # r) (length (arr @ [new_element ?t node])) nodes,
             ?s1[t := put_at r ((arr @ [new_element ?t node]) @ map (new_element ?t) nodes) (?s1 ! t)])"
    using "7.IH"(2) [OF h [folded v] refl v _ _ t1 a1] "7.prems" by (simp add: v)
  moreover have "put_at r ((arr @ [new_element ?t node]) @ map (new_element ?t) nodes) ?b1 =
        put_at r (arr @ map (new_element ?t) (node # nodes)) (s ! t)"
    using "7.prems" by (simp add: put_at_put_at)
  ultimately show ?case using h n1 by (simp add: v)
qed

lemma transformer_in_source:
  "all_source body \<Longrightarrow>
   transformer_in (ProgramNode c body) w =
     Inr ((ProgramNode (Some [length w]) (visited_list [length w] 0 body),
           ProgramNode None (map (new_element ASTNodeType_Program) body)),
          w @ [map (new_element ASTNodeType_Program) body])"
  using traverse_in_aux(2)
    [OF refl, of body "ProgramObject (ProgramNode (Some [length w]) body)" "length w" "[]" "w @ [[]]" "[]"]
  by (simp add: call_enter_def call_exit_def world_array_at_def Let_def)


lemma compiler_in_compiler:
  "map_option (map_sum id fst) (compiler_in input w) = compiler input"
proof (cases "tokenizer input")
  case None
  then show ?thesis by (simp add: compiler_in_def compiler_def)
next
  case (Some r)
  show ?thesis
  proof (cases r)
    case (Inl e)
    with Some show ?thesis by (simp add: compiler_in_def compiler_def)
  next
    case (Inr tokens)
    show ?thesis
    proof (cases "parser tokens")
      case (Inl e)
      with Some Inr show ?thesis by (simp add: compiler_in_def compiler_def)
    next
      case p: (Inr ast)
      from parser_source [OF p] obtain body where
        b: "ast = ProgramNode None body" and s: "all_source body" by blast
      from Some Inr p b transformer_source [OF s, of None] transformer_in_source [OF s, of None w]
      show ?thesis
        by (simp add: compiler_in_def compiler_def del: transformer.simps transformer_in.simps
                 split: sum.splits)
    qed
  qed
qed

lemmas transformer_in_eval =
  call_enter_def call_exit_def context_push_in_def world_push_at_def world_array_at_def Let_def

text \<open>
  C10. The outcome of the compiler is the same in every world: whatever earlier calls
  have left on the heap, the same input gives the same text, or the same error, or no
  return, and a second run in the world the first run has left gives the same text. The
  only field a call writes outside its own new tree is the \<open>_context\<close> of source nodes, and
  it is written before it is read: the transformer applied again to the tree of an
  earlier call, which carries the references into the new tree of that call, returns
  the same new tree and leaves the earlier trees as they were.
\<close>

theorem compiler_deterministic:
  "map_option (map_sum id fst) (compiler_in input w1) =
     map_option (map_sum id fst) (compiler_in input w2) \<and>
   (compiler_in input w1 = Some (Inr (output, w)) \<longrightarrow>
      (\<exists>w'. compiler_in input w = Some (Inr (output, w')))) \<and>
   (all_source body \<and> transformer_in (ProgramNode c body) w1 = Inr ((ast1, newAst), w) \<longrightarrow>
      (\<exists>ast2 w'. transformer_in ast1 w = Inr ((ast2, newAst), w') \<and> take (length w) w' = w))"
proof (intro conjI impI)
  show "map_option (map_sum id fst) (compiler_in input w1) =
        map_option (map_sum id fst) (compiler_in input w2)"
    by (simp add: compiler_in_compiler)
next
  assume a: "compiler_in input w1 = Some (Inr (output, w))"
  have "map_option (map_sum id fst) (compiler_in input w) =
        map_option (map_sum id fst) (compiler_in input w1)"
    by (simp add: compiler_in_compiler)
  with a have "map_option (map_sum id fst) (compiler_in input w) = Some (Inr output)"
    by simp
  then show "\<exists>w'. compiler_in input w = Some (Inr (output, w'))"
    by (cases "compiler_in input w") (auto simp: map_sum_def split: sum.splits)
next
  assume a: "all_source body \<and> transformer_in (ProgramNode c body) w1 = Inr ((ast1, newAst), w)"
  then have s: "all_source body" by simp
  from a transformer_in_source [OF s, of c w1]
  have r: "ast1 = ProgramNode (Some [length w1]) (visited_list [length w1] 0 body)"
          "newAst = ProgramNode None (map (new_element ASTNodeType_Program) body)"
          "w = w1 @ [map (new_element ASTNodeType_Program) body]"
    by simp_all
  have s1: "all_source (visited_list [length w1] 0 body)" using s by (simp add: visited_source)
  show "\<exists>ast2 w'. transformer_in ast1 w = Inr ((ast2, newAst), w') \<and> take (length w) w' = w"
    using transformer_in_source [OF s1, of "Some [length w1]" w] r
    by (simp add: new_element_visited del: transformer_in.simps)
qed

theorem compiler_deterministic_witness:
  "compiler_in ''(foo 1)'' [] =
     Some (Inr (''foo(1);'',
       [[JsExpressionStatement None
           (JsCallExpression None (Identifier None ''foo'') [NumberLiteral None ''1''])]])) \<and>
   all_source [CallExpression None ''foo'' [NumberLiteral None ''1'']] \<and>
   transformer_in (ProgramNode None [CallExpression None ''foo'' [NumberLiteral None ''1'']]) [] =
     Inr ((ProgramNode (Some [0]) [CallExpression (Some [0, 0]) ''foo'' [NumberLiteral None ''1'']],
           ProgramNode None [JsExpressionStatement None
             (JsCallExpression None (Identifier None ''foo'') [NumberLiteral None ''1''])]),
          [[JsExpressionStatement None
             (JsCallExpression None (Identifier None ''foo'') [NumberLiteral None ''1''])]]) \<and>
   map_option (map_sum id fst) (compiler_in ''(foo 1)'' []) =
     map_option (map_sum id fst)
       (compiler_in ''(foo 1)'' [[NumberLiteral None ''9''], [StringLiteral None ''old'']]) \<and>
   (\<exists>w'. compiler_in ''(foo 1)''
       [[JsExpressionStatement None
           (JsCallExpression None (Identifier None ''foo'') [NumberLiteral None ''1''])]]
     = Some (Inr (''foo(1);'', w'))) \<and>
   (\<exists>ast2 w'.
      transformer_in
        (ProgramNode (Some [0]) [CallExpression (Some [0, 0]) ''foo'' [NumberLiteral None ''1'']])
        [[JsExpressionStatement None
           (JsCallExpression None (Identifier None ''foo'') [NumberLiteral None ''1''])]]
      = Inr ((ast2, ProgramNode None [JsExpressionStatement None
             (JsCallExpression None (Identifier None ''foo'') [NumberLiteral None ''1''])]), w') \<and>
      take (length [[JsExpressionStatement None
           (JsCallExpression None (Identifier None ''foo'') [NumberLiteral None ''1''])]]) w' =
        [[JsExpressionStatement None
           (JsCallExpression None (Identifier None ''foo'') [NumberLiteral None ''1''])]])"
proof -
  let ?stmt = "JsExpressionStatement None
           (JsCallExpression None (Identifier None ''foo'') [NumberLiteral None ''1''])"
  let ?body = "[CallExpression None ''foo'' [NumberLiteral None ''1'']]"
  have t: "transformer_in (ProgramNode None ?body) [] =
     Inr ((ProgramNode (Some [0]) [CallExpression (Some [0, 0]) ''foo'' [NumberLiteral None ''1'']],
           ProgramNode None [?stmt]), [[?stmt]])"
    by (simp add: transformer_in_eval)
  have c: "compiler_in ''(foo 1)'' [] = Some (Inr (''foo(1);'', [[?stmt]]))"
    by (simp add: compiler_in_def scan_eval parser_eval transformer_in_eval codeGenerator_def)
  have s: "all_source ?body" by simp
  from compiler_deterministic [of "''(foo 1)''" "[]" "[[NumberLiteral None ''9''], [StringLiteral None ''old'']]"
               "''foo(1);''" "[[?stmt]]" ?body None
               "ProgramNode (Some [0]) [CallExpression (Some [0, 0]) ''foo'' [NumberLiteral None ''1'']]"
               "ProgramNode None [?stmt]"]
       c t s
  show ?thesis by blast
qed

subsection \<open>The parser on malformed token sequences\<close>

text \<open>
  C5. The specification asks for an error when the token after an opening parenthesis is
  not a name. The source takes the text of whatever token follows the parenthesis as the
  name of the call (lines 217 to 222): the tokens of \<open>(2 3)\<close> parse to a call named \<open>2\<close>,
  and the tokens of \<open>(()\<close> to a call named \<open>(\<close>.
\<close>

theorem parser_accepts_non_name_after_paren:
  "parser [Token TokenType_paren ''('', Token TokenType_number ''2'',
           Token TokenType_number ''3'', Token TokenType_paren '')'']
     = Inr (ProgramNode None [CallExpression None ''2'' [NumberLiteral None ''3'']]) \<and>
   parser [Token TokenType_paren ''('', Token TokenType_paren ''('', Token TokenType_paren '')'']
     = Inr (ProgramNode None [CallExpression None ''('' []])"
  by (simp add: parser_eval)

text \<open>
  C6. The specification asks that the parser never reads past the end of the tokens and
  fails only with the error that names a token kind. On the single token \<open>(\<close> the source
  reads \<open>tokens[1]\<close>, which is \<open>undefined\<close>, and the read of its \<open>value\<close> fails in the engine;
  on the tokens of \<open>(add 2\<close> it reads \<open>tokens[3]\<close> and the read of its \<open>type\<close> fails.
\<close>

theorem parser_reads_past_end:
  "parser [Token TokenType_paren ''(''] = Inl (EngineTypeError ''undefined.value'') \<and>
   parser [Token TokenType_paren ''('', Token TokenType_name ''add'', Token TokenType_number ''2'']
     = Inl (EngineTypeError ''undefined.type'')"
  by (simp add: parser_eval)

end
